theory Spec2Isabelle
  imports Complex_Main "HOL-Library.Word" "HOL-Library.AList"
begin

unbundle bit_operations_syntax

section \<open>JavaScript values\<close>

text \<open>
  A JavaScript string is a sequence of UTF-16 code units: \<open>length\<close>, \<open>substring\<close>,
  \<open>split("")\<close> and \<open>charCodeAt\<close> all count code units. String literals of the source are
  ASCII and are written through \<open>utf16\<close>.
\<close>

type_synonym jsstring = "16 word list"

definition c16 :: "char \<Rightarrow> 16 word" where
  "c16 c = of_nat (of_char c)"

definition utf16 :: "string \<Rightarrow> jsstring" where
  "utf16 s = map c16 s"

text \<open>
  Values that can sit in an untyped slot at run time: \<open>undefined\<close> and what \<open>JSON.parse\<close>
  produces. A TypeScript cast (\<open>as DecisionAction\<close>) checks nothing at run time, so a field
  filled from parsed JSON holds any of these.
\<close>

datatype jsvalue =
    Undefined
  | Null
  | Boolean bool
  | Number real
  | String jsstring
  | Array "jsvalue list"
  | Object "(jsstring \<times> jsvalue) list"

datatype error =
    SyntaxError
  | TypeError
  | Error jsstring

text \<open>
  Decimal rendering of an integer, as a template literal renders a number that is an
  integer (\<open>`${count}`\<close>).
\<close>

fun nat_toString :: "nat \<Rightarrow> jsstring" where
  "nat_toString n =
     (if n < 10 then [of_nat (48 + n)]
      else nat_toString (n div 10) @ [of_nat (48 + n mod 10)])"

declare nat_toString.simps [simp del]

definition int_toString :: "int \<Rightarrow> jsstring" where
  "int_toString i = (if i < 0 then utf16 ''-'' @ nat_toString (nat (- i)) else nat_toString (nat i))"

text \<open>The remainder operator \<open>%\<close> on integers: the result has the sign of the dividend.\<close>

definition js_rem :: "int \<Rightarrow> int \<Rightarrow> int" where
  "js_rem a b = sgn a * (\<bar>a\<bar> mod \<bar>b\<bar>)"

subsection \<open>Effects: console output, the outside world, exceptions\<close>

datatype VulnType = nonce_reuse | polynomial_attack | weak_nonce

text \<open>
  One entry per \<open>console.log\<close>, \<open>console.warn\<close> or \<open>console.error\<close> call of the modelled
  code, holding the values the call interpolates.
\<close>

datatype log_entry =
    WarnApiUnavailable
  | ErrorParseDecision error
  | LogStarted int
  | LogStopped
  | ErrorInScanCycle error
  | LogSleep jsstring jsvalue
  | LogVulnerability jsstring VulnType int
  | LogDecision jsvalue jsvalue jsvalue
  | LogScanClean jsstring
  | ErrorProcessingAddress jsstring error

record 'x world =
  console :: "log_entry list"
  outside :: 'x

text \<open>
  An \<open>async\<close> function that is awaited: it runs on the world, and either returns a value or
  throws. \<open>io_bind\<close> is sequencing (an exception skips the rest), \<open>try_catch\<close> is
  \<open>try { ... } catch (error) { ... }\<close>.
\<close>

type_synonym ('a, 'x) io = "'x world \<Rightarrow> (error + 'a) \<times> 'x world"

definition io_return :: "'a \<Rightarrow> ('a, 'x) io" where
  "io_return a = (\<lambda>w. (Inr a, w))"

definition io_throw :: "error \<Rightarrow> ('a, 'x) io" where
  "io_throw e = (\<lambda>w. (Inl e, w))"

definition io_result :: "error + 'a \<Rightarrow> ('a, 'x) io" where
  "io_result res = (\<lambda>w. (res, w))"

definition io_bind :: "('a, 'x) io \<Rightarrow> ('a \<Rightarrow> ('b, 'x) io) \<Rightarrow> ('b, 'x) io" where
  "io_bind m f = (\<lambda>w. case m w of (Inl e, w') \<Rightarrow> (Inl e, w') | (Inr a, w') \<Rightarrow> f a w')"

definition try_catch :: "('a, 'x) io \<Rightarrow> (error \<Rightarrow> ('a, 'x) io) \<Rightarrow> ('a, 'x) io" where
  "try_catch m handler = (\<lambda>w. case m w of (Inl e, w') \<Rightarrow> handler e w' | (Inr a, w') \<Rightarrow> (Inr a, w'))"

definition console_log :: "log_entry \<Rightarrow> (unit, 'x) io" where
  "console_log entry = (\<lambda>w. (Inr (), w\<lparr>console := console w @ [entry]\<rparr>))"

section \<open>watsonx.ts: prioritization\<close>

datatype Priority = H | M | L

record PrioritizationResult =
  priority :: Priority
  risk :: int
  depth :: int

text \<open>
  One step of the \<open>reduce\<close>: \<open>((h << 5) - h) + c.charCodeAt(0)\<close>. The shift converts \<open>h\<close> to a
  signed 32-bit integer and its result is one; the subtraction and the addition are on
  numbers, so the accumulator itself is not truncated. Each step adds less than
  \<open>2^31 + 2^16\<close> to its magnitude, so the numbers are exact integers (below \<open>2^53\<close>) for
  every string of up to \<open>2^21\<close> code units.
\<close>

definition hash_step :: "int \<Rightarrow> 16 word \<Rightarrow> int" where
  "hash_step h c = (sint (push_bit 5 (word_of_int h :: 32 word)) - h) + uint c"

definition priorityMap :: "Priority list" where
  "priorityMap = [H, M, L]"

definition generateMockPrioritization :: "jsstring \<Rightarrow> PrioritizationResult" where
  "generateMockPrioritization addr =
    (let hash = foldl hash_step 0 addr;
         priority = priorityMap ! nat (\<bar>hash\<bar> mod 3);
         risk = \<bar>js_rem hash 100\<bar>;
         depth = (\<bar>hash\<bar> mod 3) + 1
     in \<lparr> priority = priority, risk = risk, depth = depth \<rparr>)"

text \<open>
  \<open>prioritize\<close> returns the mock result from inside a \<open>try\<close>; the mock does not throw, so the
  \<open>catch\<close> branch (Medium, 50, 2) is never taken.
\<close>

definition prioritize :: "jsstring \<Rightarrow> (PrioritizationResult, 'x) io" where
  "prioritize addr =
     try_catch (io_return (generateMockPrioritization addr))
       (\<lambda>error. io_return \<lparr> priority = M, risk = 50, depth = 2 \<rparr>)"

section \<open>decision-ai.ts\<close>

text \<open>
  \<open>DecisionState\<close> has the three fields of a prioritization result, the address and an
  optional time stamp.
\<close>

record DecisionState = PrioritizationResult +
  address :: jsstring
  lastScanned :: "jsstring option"

record DecisionResult =
  action :: jsvalue
  reasoning :: jsvalue
  confidence :: jsvalue

abbreviation SCAN :: jsvalue where "SCAN \<equiv> String (utf16 ''SCAN'')"
abbreviation DEEP :: jsvalue where "DEEP \<equiv> String (utf16 ''DEEP'')"
abbreviation SLEEP :: jsvalue where "SLEEP \<equiv> String (utf16 ''SLEEP'')"

text \<open>
  What the module reads from its surroundings: the environment variable, the call to the
  model (network transport), and the built-in \<open>JSON.parse\<close>, which returns a value or throws.
\<close>

record 'x decision_env =
  WATSONX_API_KEY :: "jsstring option"
  callWatsonxAPI :: "jsstring \<Rightarrow> (jsstring, 'x) io"
  JSON_parse :: "jsstring \<Rightarrow> error + jsvalue"

definition Priority_toString :: "Priority \<Rightarrow> jsstring" where
  "Priority_toString p = (case p of H \<Rightarrow> utf16 ''H'' | M \<Rightarrow> utf16 ''M'' | L \<Rightarrow> utf16 ''L'')"

definition decide_prompt :: "DecisionState \<Rightarrow> jsstring" where
  "decide_prompt state =
     utf16 ''\<newline>You are a security analyst AI. Make a decision on how to proceed with scanning a blockchain address.\<newline>''
   @ utf16 ''\<newline>Current State:\<newline>''
   @ utf16 ''- Address: '' @ address state @ utf16 ''\<newline>''
   @ utf16 ''- Priority: '' @ Priority_toString (priority state) @ utf16 '' (H=Critical, M=Medium, L=Low)\<newline>''
   @ utf16 ''- Risk Level: '' @ int_toString (risk state) @ utf16 ''/100\<newline>''
   @ utf16 ''- Analysis Depth: Level '' @ int_toString (depth state) @ utf16 ''/3\<newline>''
   @ utf16 ''- Last Scanned: ''
   @ (case lastScanned state of
        None \<Rightarrow> utf16 ''Never''
      | Some t \<Rightarrow> if t = [] then utf16 ''Never'' else t)
   @ utf16 ''\<newline>''
   @ utf16 ''\<newline>Available Actions:\<newline>''
   @ utf16 ''- SCAN: Run standard ECDSA vulnerability scan\<newline>''
   @ utf16 ''- DEEP: Run comprehensive deep analysis with polynomial attack detection\<newline>''
   @ utf16 ''- SLEEP: Skip this address and check again later\<newline>''
   @ utf16 ''\<newline>Consider:\<newline>''
   @ utf16 ''1. High priority (H) addresses should be scanned immediately\<newline>''
   @ utf16 ''2. High risk (>70) addresses need deep analysis\<newline>''
   @ utf16 ''3. Recently scanned addresses can sleep\<newline>''
   @ utf16 ''4. Medium priority needs standard scan only\<newline>''
   @ utf16 ''\<newline>Respond with ONLY valid JSON:\<newline>''
   @ utf16 ''{\"action\":\"SCAN|DEEP|SLEEP\",\"reasoning\":\"brief explanation\",\"confidence\":0-100}\<newline>''"

text \<open>
  \<open>response.match(/\{[\s\S]*\}/)\<close>: the match starts at the first opening brace and, the
  star being greedy, ends at the last closing brace after it; there is no match when no
  closing brace follows the first opening brace.
\<close>

definition match_braces :: "jsstring \<Rightarrow> jsstring option" where
  "match_braces response =
     (case dropWhile (\<lambda>c. c \<noteq> c16 CHR ''{'') response of
        [] \<Rightarrow> None
      | open_brace # after \<Rightarrow>
          (case dropWhile (\<lambda>c. c \<noteq> c16 CHR ''}'') (rev after) of
             [] \<Rightarrow> None
           | tail \<Rightarrow> Some (open_brace # rev tail)))"

text \<open>
  Reading a property: a \<open>TypeError\<close> on \<open>null\<close> and \<open>undefined\<close>, the member of an object
  (\<open>undefined\<close> when absent); the other values have no property of the three names read here.
\<close>

fun get_property :: "jsvalue \<Rightarrow> jsstring \<Rightarrow> error + jsvalue" where
  "get_property Undefined name = Inl TypeError"
| "get_property Null name = Inl TypeError"
| "get_property (Object members) name =
     Inr (case map_of members name of None \<Rightarrow> Undefined | Some x \<Rightarrow> x)"
| "get_property other name = Inr Undefined"

definition parseDecisionResponse ::
  "('x, 'more) decision_env_scheme \<Rightarrow> jsstring \<Rightarrow> (DecisionResult, 'x) io" where
  "parseDecisionResponse env response =
     try_catch
       (case match_braces response of
          None \<Rightarrow> io_throw (Error (utf16 ''No JSON found in response''))
        | Some jsonMatch \<Rightarrow>
            io_bind (io_result (JSON_parse env jsonMatch)) (\<lambda>parsed.
            io_bind (io_result (get_property parsed (utf16 ''action''))) (\<lambda>parsed_action.
            io_bind (io_result (get_property parsed (utf16 ''reasoning''))) (\<lambda>parsed_reasoning.
            io_bind (io_result (get_property parsed (utf16 ''confidence''))) (\<lambda>parsed_confidence.
            io_return \<lparr> action = parsed_action,
                        reasoning = parsed_reasoning,
                        confidence = parsed_confidence \<rparr>)))))
       (\<lambda>error.
          io_bind (console_log (ErrorParseDecision error)) (\<lambda>_.
          io_return \<lparr> action = SLEEP,
                      reasoning = String (utf16 ''Error parsing AI decision, defaulting to sleep''),
                      confidence = Number 0 \<rparr>))"

definition fallbackDecide :: "DecisionState \<Rightarrow> DecisionResult" where
  "fallbackDecide state =
    (if priority state = H then
       (if risk state > 70 then
          \<lparr> action = DEEP,
            reasoning = String (utf16 ''Critical priority with high risk requires deep analysis''),
            confidence = Number 98 \<rparr>
        else
          \<lparr> action = SCAN,
            reasoning = String (utf16 ''Critical priority address needs immediate scan''),
            confidence = Number 95 \<rparr>)
     else if priority state = M then
       (if risk state > 60 then
          \<lparr> action = SCAN,
            reasoning = String (utf16 ''Medium priority with elevated risk warrants scan''),
            confidence = Number 85 \<rparr>
        else
          \<lparr> action = SLEEP,
            reasoning = String (utf16 ''Medium priority with normal risk, will check again later''),
            confidence = Number 80 \<rparr>)
     else if risk state > 80 then
       \<lparr> action = SCAN,
         reasoning = String (utf16 ''Low priority but unusually high risk detected''),
         confidence = Number 75 \<rparr>
     else
       \<lparr> action = SLEEP,
         reasoning = String (utf16 ''Low priority and normal risk, no action needed''),
         confidence = Number 90 \<rparr>)"

text \<open>
  \<open>decide\<close>: inside the \<open>try\<close>, when the key is set (a non-empty string), the model is called
  and the parsed response is returned at once (\<open>Some\<close>); the \<open>catch\<close> logs a warning; whatever
  did not return falls through (\<open>None\<close>) to the fallback.
\<close>

definition decide ::
  "('x, 'more) decision_env_scheme \<Rightarrow> DecisionState \<Rightarrow> (DecisionResult, 'x) io" where
  "decide env state =
     io_bind
       (try_catch
          (if WATSONX_API_KEY env \<noteq> None \<and> WATSONX_API_KEY env \<noteq> Some [] then
             io_bind (callWatsonxAPI env (decide_prompt state)) (\<lambda>response.
             io_bind (parseDecisionResponse env response) (\<lambda>result.
             io_return (Some result)))
           else io_return None)
          (\<lambda>error.
             io_bind (console_log WarnApiUnavailable) (\<lambda>_.
             io_return None)))
       (\<lambda>returned.
          case returned of
            Some result \<Rightarrow> io_return result
          | None \<Rightarrow> io_return (fallbackDecide state))"

section \<open>scanner.ts\<close>

record Signature =
  r :: jsstring
  s :: jsstring
  v :: int
  hash :: jsstring

record ScanResult =
  type :: VulnType
  details :: jsstring
  severity :: int

definition extractSignatures :: "jsstring \<Rightarrow> Signature list" where
  "extractSignatures addr =
     [ \<lparr> r = utf16 ''0x1234567890abcdef1234567890abcdef1234567890abcdef1234567890abcdef'',
         s = utf16 ''0xfedcba0987654321fedcba0987654321fedcba0987654321fedcba0987654321'',
         v = 27,
         hash = utf16 ''0xhash1'' \<rparr>,
       \<lparr> r = utf16 ''0x1234567890abcdef1234567890abcdef1234567890abcdef1234567890abcdef'',
         s = utf16 ''0x9876543210fedcba9876543210fedcba9876543210fedcba9876543210fedcba'',
         v = 28,
         hash = utf16 ''0xhash2'' \<rparr> ]"

text \<open>
  \<open>nonceReuse\<close>. The \<open>Map\<close> keeps its keys in the order of their first insertion, and an
  update leaves a key where it is: an association list under \<open>AList.update\<close>. The second
  loop returns at the first entry whose count is above one.
\<close>

fun count_rValues :: "(jsstring \<times> nat) list \<Rightarrow> Signature list \<Rightarrow> (jsstring \<times> nat) list" where
  "count_rValues rValues [] = rValues"
| "count_rValues rValues (sig # sigs) =
     (let count = (case map_of rValues (r sig) of None \<Rightarrow> 0 | Some c \<Rightarrow> c) + 1
      in count_rValues (AList.update (r sig) count rValues) sigs)"

definition nonceReuse :: "Signature list \<Rightarrow> ScanResult option" where
  "nonceReuse sigs =
     (case List.find (\<lambda>(r, count). count > 1) (count_rValues [] sigs) of
        Some (r', count) \<Rightarrow>
          Some \<lparr> type = nonce_reuse,
                 details = utf16 ''Found '' @ nat_toString count
                   @ utf16 '' signatures with same R value ('' @ take 10 r'
                   @ utf16 ''...). Private key recovery is possible.'',
                 severity = 95 \<rparr>
      | None \<Rightarrow> None)"

text \<open>
  \<open>BigInt(string)\<close>: white space and line terminators are trimmed; the empty text is 0;
  otherwise the text is decimal digits with an optional sign, or \<open>0x\<close>, \<open>0o\<close>, \<open>0b\<close> and
  digits of that radix without a sign; anything else throws a \<open>SyntaxError\<close>.
\<close>

definition isStrWhiteSpaceChar :: "16 word \<Rightarrow> bool" where
  "isStrWhiteSpaceChar c \<longleftrightarrow>
     c \<in> set [0x0009, 0x000A, 0x000B, 0x000C, 0x000D, 0x0020, 0x00A0, 0x1680,
               0x2000, 0x2001, 0x2002, 0x2003, 0x2004, 0x2005, 0x2006, 0x2007,
               0x2008, 0x2009, 0x200A, 0x2028, 0x2029, 0x202F, 0x205F, 0x3000, 0xFEFF]"

definition trimString :: "jsstring \<Rightarrow> jsstring" where
  "trimString str = rev (dropWhile isStrWhiteSpaceChar (rev (dropWhile isStrWhiteSpaceChar str)))"

definition digitValue :: "16 word \<Rightarrow> nat option" where
  "digitValue c =
     (let n = unat c in
      if 48 \<le> n \<and> n \<le> 57 then Some (n - 48)
      else if 97 \<le> n \<and> n \<le> 102 then Some (n - 87)
      else if 65 \<le> n \<and> n \<le> 70 then Some (n - 55)
      else None)"

fun digitsValue :: "nat \<Rightarrow> nat \<Rightarrow> jsstring \<Rightarrow> nat option" where
  "digitsValue radix acc [] = Some acc"
| "digitsValue radix acc (c # cs) =
     (case digitValue c of
        None \<Rightarrow> None
      | Some d \<Rightarrow> if d < radix then digitsValue radix (acc * radix + d) cs else None)"

definition parseDigits :: "nat \<Rightarrow> jsstring \<Rightarrow> nat option" where
  "parseDigits radix cs = (if cs = [] then None else digitsValue radix 0 cs)"

definition StringToBigInt :: "jsstring \<Rightarrow> int option" where
  "StringToBigInt str =
     (let text = trimString str in
      if text = [] then Some 0
      else if length text \<ge> 2 \<and> hd text = c16 CHR ''0'' \<and> text ! 1 \<in> set (utf16 ''xX'') then
        map_option int (parseDigits 16 (drop 2 text))
      else if length text \<ge> 2 \<and> hd text = c16 CHR ''0'' \<and> text ! 1 \<in> set (utf16 ''oO'') then
        map_option int (parseDigits 8 (drop 2 text))
      else if length text \<ge> 2 \<and> hd text = c16 CHR ''0'' \<and> text ! 1 \<in> set (utf16 ''bB'') then
        map_option int (parseDigits 2 (drop 2 text))
      else if hd text = c16 CHR ''+'' then
        map_option int (parseDigits 10 (tl text))
      else if hd text = c16 CHR ''-'' then
        map_option (\<lambda>n. - int n) (parseDigits 10 (tl text))
      else
        map_option int (parseDigits 10 text))"

definition BigInt :: "jsstring \<Rightarrow> error + int" where
  "BigInt str = (case StringToBigInt str of None \<Rightarrow> Inl SyntaxError | Some n \<Rightarrow> Inr n)"

text \<open>\<open>sigs.map((s) => BigInt(s.r))\<close>: the first string that does not parse throws.\<close>

fun rInts_of :: "Signature list \<Rightarrow> error + int list" where
  "rInts_of [] = Inr []"
| "rInts_of (sig # sigs) =
     (case BigInt (r sig) of
        Inl e \<Rightarrow> Inl e
      | Inr n \<Rightarrow> (case rInts_of sigs of Inl e \<Rightarrow> Inl e | Inr ns \<Rightarrow> Inr (n # ns)))"

text \<open>The loop \<open>for (i = 1; i < xs.length; i++) out.push(xs[i] - xs[i - 1])\<close>.\<close>

fun differences :: "int list \<Rightarrow> int list" where
  "differences (a # b # xs) = (b - a) # differences (b # xs)"
| "differences xs = []"

definition polynomialAttack :: "Signature list \<Rightarrow> error + ScanResult option" where
  "polynomialAttack sigs =
     (if length sigs < 3 then Inr None
      else
        case rInts_of sigs of
          Inl e \<Rightarrow> Inl e
        | Inr rInts \<Rightarrow>
            (let diffs = differences rInts in
             if length diffs \<ge> 2 then
               (let secondDiffs = differences diffs;
                    isPolynomial = list_all (\<lambda>d. d = 0 \<or> (d > 0 \<and> d < 1000)) secondDiffs
                in if isPolynomial then
                     Inr (Some \<lparr> type = polynomial_attack,
                                 details = utf16 ''Detected polynomial nonce generation pattern. Nonce sequence is predictable.'',
                                 severity = 85 \<rparr>)
                   else Inr None)
             else Inr None))"

text \<open>
  \<open>sigs.length * 0.3\<close> is a product of two binary64 numbers. The literal \<open>0.3\<close> is the
  binary64 number \<open>5404319552844595 / 2^54\<close>, the length is exact, and the product is the
  exact product rounded to 53 significant bits, to nearest, ties to even. Here a number is
  an integer count of units of \<open>2^-54\<close>.
\<close>

fun bit_length :: "nat \<Rightarrow> nat" where
  "bit_length n = (if n = 0 then 0 else Suc (bit_length (n div 2)))"

declare bit_length.simps [simp del]

definition round_to_53_bits :: "nat \<Rightarrow> nat" where
  "round_to_53_bits n =
     (if bit_length n \<le> 53 then n
      else
        (let shift = bit_length n - 53;
             q = n div 2 ^ shift;
             rest = n mod 2 ^ shift;
             half = 2 ^ (shift - 1)
         in (if rest > half \<or> (rest = half \<and> odd q) then q + 1 else q) * 2 ^ shift))"

definition length_times_03 :: "nat \<Rightarrow> nat" where
  "length_times_03 len = round_to_53_bits (len * 5404319552844595)"

definition maxR :: int where
  "maxR = 0xFFFFFFFFFFFFFFFFFFFFFFFFFFFFFFFFFFFFFFFFFFFFFFFFFFFFFFFFFFFFFFFF"

text \<open>
  \<open>weakNonce\<close>. \<open>maxR / 1000n\<close> divides two positive BigInts, so truncation is \<open>div\<close>. The test
  \<open>weakCount > sigs.length * 0.3\<close> compares in units of \<open>2^-54\<close>.
\<close>

definition weakNonce :: "Signature list \<Rightarrow> error + ScanResult option" where
  "weakNonce sigs =
     (case rInts_of sigs of
        Inl e \<Rightarrow> Inl e
      | Inr rInts \<Rightarrow>
          (let weakCount = length (filter (\<lambda>r. r < maxR div 1000) rInts) in
           if weakCount * 2 ^ 54 > length_times_03 (length sigs) then
             Inr (Some \<lparr> type = weak_nonce,
                         details = nat_toString weakCount @ utf16 '' out of ''
                           @ nat_toString (length sigs)
                           @ utf16 '' signatures use low-entropy nonces.'',
                         severity = 70 \<rparr>)
           else Inr None))"

text \<open>
  \<open>scan\<close> is \<open>extractSignatures\<close> followed by the checks; \<open>scan_signatures\<close> is the part of its
  body that runs on the extracted signatures. In \<open>a || b || c || null\<close> a finding is truthy
  and \<open>null\<close> is not, so the first finding is the result; an exception ends the evaluation.
\<close>

definition scan_signatures :: "Signature list \<Rightarrow> error + ScanResult option" where
  "scan_signatures sigs =
     (if length sigs < 2 then Inr None
      else
        case nonceReuse sigs of
          Some found \<Rightarrow> Inr (Some found)
        | None \<Rightarrow>
            (case polynomialAttack sigs of
               Inl e \<Rightarrow> Inl e
             | Inr (Some found) \<Rightarrow> Inr (Some found)
             | Inr None \<Rightarrow> weakNonce sigs))"

definition scan :: "jsstring \<Rightarrow> error + ScanResult option" where
  "scan addr = scan_signatures (extractSignatures addr)"

subsection \<open>The curve order\<close>

text \<open>
  The collector module validates signatures against the order of secp256k1, which it calls
  \<open>curveOrder\<close>. The scanner does not use it: its bound is \<open>maxR\<close>.
\<close>

definition curveOrder :: int where
  "curveOrder = 0xFFFFFFFFFFFFFFFFFFFFFFFFFFFFFFFEBAAEDCE6AF48A03BBFD25E8CD0364141"

section \<open>scheduler.ts\<close>

text \<open>
  The storage collaborator. Of a schedule row the loop reads the target and the active flag.
  \<open>storeVulnerability\<close> receives the address, the type, the metadata (details and severity)
  and the severity; \<open>storage.ts\<close> declares no such method, so it is a parameter here, and it
  may throw.
\<close>

record Schedule =
  target :: jsstring
  isActive :: bool

datatype InsertVulnerability =
  InsertVulnerability jsstring VulnType "jsstring \<times> int" int

record 'x scheduler_env = "'x decision_env" +
  getSchedules :: "(Schedule list, 'x) io"
  storeVulnerability :: "InsertVulnerability \<Rightarrow> (jsvalue, 'x) io"

text \<open>The body of the \<open>try\<close> block of \<open>processAddress\<close>.\<close>

definition processAddress_body :: "'x scheduler_env \<Rightarrow> jsstring \<Rightarrow> (unit, 'x) io" where
  "processAddress_body env addr =
     io_bind (prioritize addr) (\<lambda>prioritization.
     let decisionState =
           \<lparr> priority = priority prioritization,
             risk = risk prioritization,
             depth = depth prioritization,
             address = addr,
             lastScanned = None \<rparr>
     in
     io_bind (decide env decisionState) (\<lambda>decision.
     if action decision = SLEEP then
       console_log (LogSleep (take 10 addr) (reasoning decision))
     else if action decision = SCAN \<or> action decision = DEEP then
       io_bind (io_result (scan addr)) (\<lambda>vulnerability.
       case vulnerability of
         Some found \<Rightarrow>
           io_bind (storeVulnerability env
                      (InsertVulnerability addr (type found)
                         (details found, severity found) (severity found))) (\<lambda>stored.
           io_bind (console_log (LogVulnerability (take 10 addr) (type found) (severity found))) (\<lambda>_.
           console_log (LogDecision (action decision) (confidence decision) (reasoning decision))))
       | None \<Rightarrow> console_log (LogScanClean (take 10 addr)))
     else io_return ()))"

definition processAddress :: "'x scheduler_env \<Rightarrow> jsstring \<Rightarrow> (unit, 'x) io" where
  "processAddress env addr =
     try_catch (processAddress_body env addr)
       (\<lambda>error. console_log (ErrorProcessingAddress addr error))"

definition getAddressesToCheck :: "'x scheduler_env \<Rightarrow> (jsstring list, 'x) io" where
  "getAddressesToCheck env =
     io_bind (getSchedules env) (\<lambda>schedules.
     io_return (map target (filter isActive schedules)))"

text \<open>\<open>for (const addr of addresses) { await body(addr) }\<close>: an exception ends the loop.\<close>

fun for_each :: "('a \<Rightarrow> (unit, 'x) io) \<Rightarrow> 'a list \<Rightarrow> (unit, 'x) io" where
  "for_each body [] = io_return ()"
| "for_each body (a # as) = io_bind (body a) (\<lambda>_. for_each body as)"

definition scanCycle :: "'x scheduler_env \<Rightarrow> (unit, 'x) io" where
  "scanCycle env =
     try_catch
       (io_bind (getAddressesToCheck env) (\<lambda>addresses.
        for_each (processAddress env) addresses))
       (\<lambda>error. console_log (ErrorInScanCycle error))"

subsection \<open>The scheduler object, the timers and the event loop\<close>

datatype Timer = Timer nat

record MainScannerLoop =
  isRunning :: bool
  interval :: "Timer option"

text \<open>
  A call of \<open>scanCycle\<close> that has started and not returned is suspended at an \<open>await\<close>:
  on the schedules, or on the processing of the first of the targets still to do.
\<close>

datatype cycle = AwaitingSchedules | Processing "jsstring list"

text \<open>
  The process: the scheduler object, the intervals that \<open>setInterval\<close> armed and
  \<open>clearInterval\<close> has not cancelled (handle and delay in milliseconds), the next fresh
  handle, the suspended cycles, and the world the cycles act on.
\<close>

record 'x system =
  mainScanner :: MainScannerLoop
  timers :: "(Timer \<times> int) list"
  nextTimer :: nat
  pending :: "cycle list"
  world :: "'x world"

definition initial :: "'x world \<Rightarrow> 'x system" where
  "initial w =
     \<lparr> mainScanner = \<lparr> isRunning = False, interval = None \<rparr>,
       timers = [], nextTimer = 0, pending = [], world = w \<rparr>"

definition setInterval :: "int \<Rightarrow> 'x system \<Rightarrow> Timer \<times> 'x system" where
  "setInterval delay sys =
     (Timer (nextTimer sys),
      sys\<lparr> timers := timers sys @ [(Timer (nextTimer sys), delay)],
           nextTimer := Suc (nextTimer sys) \<rparr>)"

definition clearInterval :: "Timer \<Rightarrow> 'x system \<Rightarrow> 'x system" where
  "clearInterval t sys = sys\<lparr> timers := filter (\<lambda>(t', delay). t' \<noteq> t) (timers sys) \<rparr>"

definition log_system :: "log_entry \<Rightarrow> 'x system \<Rightarrow> 'x system" where
  "log_system entry sys = sys\<lparr> world := snd (console_log entry (world sys)) \<rparr>"

text \<open>
  \<open>start\<close> and \<open>stop\<close>. The handle of an interval is an object, so \<open>if (this.interval)\<close>
  tests it against \<open>null\<close>. A call \<open>start()\<close> without an argument is \<open>start 30\<close>.
\<close>

definition start :: "int \<Rightarrow> 'x system \<Rightarrow> 'x system" where
  "start intervalSeconds sys =
     (if isRunning (mainScanner sys) then sys
      else
        (let sys1 = sys\<lparr> mainScanner := (mainScanner sys)\<lparr> isRunning := True \<rparr> \<rparr>;
             sys2 = log_system (LogStarted intervalSeconds) sys1;
             (t, sys3) = setInterval (intervalSeconds * 1000) sys2
         in sys3\<lparr> mainScanner := (mainScanner sys3)\<lparr> interval := Some t \<rparr> \<rparr>))"

definition stop :: "'x system \<Rightarrow> 'x system" where
  "stop sys =
     (let sys1 = (case interval (mainScanner sys) of
                    Some t \<Rightarrow>
                      (let cleared = clearInterval t sys
                       in cleared\<lparr> mainScanner := (mainScanner cleared)\<lparr> interval := None \<rparr> \<rparr>)
                  | None \<Rightarrow> sys);
          sys2 = sys1\<lparr> mainScanner := (mainScanner sys1)\<lparr> isRunning := False \<rparr> \<rparr>
      in log_system LogStopped sys2)"

text \<open>
  The callback of the interval is \<open>() => { this.scanCycle(); }\<close>: it starts a cycle and does
  not wait for it. The cycle runs up to its first \<open>await\<close> and is suspended there.
\<close>

definition timer_fires :: "Timer \<Rightarrow> 'x system \<Rightarrow> 'x system" where
  "timer_fires t sys =
     (if t \<in> fst ` set (timers sys) then sys\<lparr> pending := pending sys @ [AwaitingSchedules] \<rparr>
      else sys)"

text \<open>
  A suspended cycle goes on to its next \<open>await\<close>, or to its end. An exception that
  reaches \<open>scanCycle\<close> is logged by its \<open>catch\<close> and ends the cycle. One step runs one
  target through \<open>processAddress\<close>.
\<close>

definition resume_cycle :: "'x scheduler_env \<Rightarrow> cycle \<Rightarrow> 'x world \<Rightarrow> cycle option \<times> 'x world" where
  "resume_cycle env c w =
     (case c of
        AwaitingSchedules \<Rightarrow>
          (case getAddressesToCheck env w of
             (Inl error, w') \<Rightarrow> (None, snd (console_log (ErrorInScanCycle error) w'))
           | (Inr addresses, w') \<Rightarrow> (if addresses = [] then None else Some (Processing addresses), w'))
      | Processing addresses \<Rightarrow>
          (case addresses of
             [] \<Rightarrow> (None, w)
           | addr # rest \<Rightarrow>
               (case processAddress env addr w of
                  (Inl error, w') \<Rightarrow> (None, snd (console_log (ErrorInScanCycle error) w'))
                | (Inr _, w') \<Rightarrow> (if rest = [] then None else Some (Processing rest), w'))))"

definition resume :: "'x scheduler_env \<Rightarrow> nat \<Rightarrow> 'x system \<Rightarrow> 'x system" where
  "resume env i sys =
     (if i < length (pending sys) then
        (case resume_cycle env (pending sys ! i) (world sys) of
           (None, w') \<Rightarrow>
             sys\<lparr> pending := take i (pending sys) @ drop (Suc i) (pending sys), world := w' \<rparr>
         | (Some c', w') \<Rightarrow>
             sys\<lparr> pending := (pending sys)[i := c'], world := w' \<rparr>)
      else sys)"

text \<open>
  What can happen to the process: a caller invokes \<open>start\<close> or \<open>stop\<close>, an armed interval
  fires, a suspended cycle goes on. The order of these events is not fixed by the program.
\<close>

datatype event = Call_start int | Call_stop | Timer_fires Timer | Resume nat

fun step :: "'x scheduler_env \<Rightarrow> 'x system \<Rightarrow> event \<Rightarrow> 'x system" where
  "step env sys (Call_start intervalSeconds) = start intervalSeconds sys"
| "step env sys Call_stop = stop sys"
| "step env sys (Timer_fires t) = timer_fires t sys"
| "step env sys (Resume i) = resume env i sys"

definition run :: "'x scheduler_env \<Rightarrow> event list \<Rightarrow> 'x system \<Rightarrow> 'x system" where
  "run env events sys = foldl (step env) sys events"

section \<open>Notions used to state the properties\<close>

text \<open>The number of signatures that carry a given \<open>r\<close>.\<close>

definition occurrences :: "jsstring \<Rightarrow> Signature list \<Rightarrow> nat" where
  "occurrences k sigs = length (filter (\<lambda>sig. r sig = k) sigs)"

text \<open>The decision \<open>parseDecisionResponse\<close> returns from its \<open>catch\<close>.\<close>

definition parse_default :: DecisionResult where
  "parse_default =
     \<lparr> action = SLEEP,
       reasoning = String (utf16 ''Error parsing AI decision, defaulting to sleep''),
       confidence = Number 0 \<rparr>"

text \<open>The world after one more target has gone through \<open>processAddress\<close>.\<close>

definition then_process :: "'x scheduler_env \<Rightarrow> 'x world \<Rightarrow> jsstring \<Rightarrow> 'x world" where
  "then_process env w addr = snd (processAddress env addr w)"

text \<open>Running a suspended cycle to its end, step by step.\<close>

fun finish_targets :: "'x scheduler_env \<Rightarrow> jsstring list \<Rightarrow> 'x world \<Rightarrow> 'x world" where
  "finish_targets env [] w = w"
| "finish_targets env (addr # rest) w =
     (case resume_cycle env (Processing (addr # rest)) w of
        (None, w') \<Rightarrow> w'
      | (Some c, w') \<Rightarrow> finish_targets env rest w')"

text \<open>The invariant of the scheduler: the flag, the handle and the armed timers agree.\<close>

definition consistent :: "'x system \<Rightarrow> bool" where
  "consistent sys \<longleftrightarrow>
     (case interval (mainScanner sys) of
        None \<Rightarrow> \<not> isRunning (mainScanner sys) \<and> timers sys = []
      | Some t \<Rightarrow> isRunning (mainScanner sys) \<and> (\<exists>delay. timers sys = [(t, delay)]))"

text \<open>
  An offline process for the examples: no key, three schedules of which two are active,
  and a storage whose \<open>storeVulnerability\<close> call is a \<open>TypeError\<close>.
\<close>

abbreviation offline_env :: "unit scheduler_env" where
  "offline_env \<equiv>
     \<lparr> WATSONX_API_KEY = None,
       callWatsonxAPI = (\<lambda>prompt. io_throw (Error (utf16 ''Watsonx API credentials not configured''))),
       JSON_parse = (\<lambda>text. Inl SyntaxError),
       getSchedules = io_return
         [\<lparr> target = utf16 ''0x742d...f44e'', isActive = True \<rparr>,
          \<lparr> target = utf16 ''0xabc'', isActive = False \<rparr>,
          \<lparr> target = utf16 ''addr1'', isActive = True \<rparr>],
       storeVulnerability = (\<lambda>vulnerability. io_throw TypeError) \<rparr>"

abbreviation quiet :: "unit world" where
  "quiet \<equiv> \<lparr> console = [], outside = () \<rparr>"

section \<open>Properties of the decision policy\<close>

lemma c16_inj: "inj c16"
proof (rule injI)
  fix x y :: char
  assume "c16 x = c16 y"
  then have "unat (of_nat (of_char x :: nat) :: 16 word) = unat (of_nat (of_char y :: nat) :: 16 word)"
    by (simp add: c16_def)
  moreover have "(of_char x :: nat) < 65536" "(of_char y :: nat) < 65536"
    by (rule less_trans [OF nat_of_char_less_256], simp)+
  ultimately have "(of_char x :: nat) = of_char y"
    by (simp add: unat_of_nat)
  then show "x = y" by simp
qed

lemma utf16_inject: "utf16 a = utf16 b \<longleftrightarrow> a = b"
  by (simp add: utf16_def inj_map_eq_map c16_inj)

text \<open>
  C4. The fallback decision is a function of the state alone (total and deterministic) and
  gives, for every priority and every risk, the action and confidence of the rule table; the
  comparisons are strict, so High with risk exactly 70 is a standard scan.
\<close>

theorem fallbackDecide_table:
  "action (fallbackDecide state) =
     (case priority state of
        H \<Rightarrow> if risk state > 70 then DEEP else SCAN
      | M \<Rightarrow> if risk state > 60 then SCAN else SLEEP
      | L \<Rightarrow> if risk state > 80 then SCAN else SLEEP)
   \<and> confidence (fallbackDecide state) =
     (case priority state of
        H \<Rightarrow> if risk state > 70 then Number 98 else Number 95
      | M \<Rightarrow> if risk state > 60 then Number 85 else Number 80
      | L \<Rightarrow> if risk state > 80 then Number 75 else Number 90)
   \<and> fallbackDecide (state\<lparr>priority := H, risk := 70\<rparr>) =
       \<lparr> action = SCAN,
         reasoning = String (utf16 ''Critical priority address needs immediate scan''),
         confidence = Number 95 \<rparr>
   \<and> DEEP \<noteq> SCAN \<and> SCAN \<noteq> SLEEP \<and> DEEP \<noteq> SLEEP"
  by (cases "priority state") (simp_all add: fallbackDecide_def utf16_inject)

subsection \<open>Parsing the model's response\<close>

lemmas io_defs = io_return_def io_throw_def io_result_def io_bind_def try_catch_def console_log_def

lemma parseDecisionResponse_no_match:
  "match_braces response = None \<Longrightarrow>
   parseDecisionResponse env response w =
     (Inr parse_default,
      w\<lparr>console := console w @ [ErrorParseDecision (Error (utf16 ''No JSON found in response''))]\<rparr>)"
  by (simp add: parseDecisionResponse_def io_defs parse_default_def)

lemma parseDecisionResponse_bad_json:
  "match_braces response = Some jsonMatch \<Longrightarrow> JSON_parse env jsonMatch = Inl e \<Longrightarrow>
   parseDecisionResponse env response w =
     (Inr parse_default, w\<lparr>console := console w @ [ErrorParseDecision e]\<rparr>)"
  by (simp add: parseDecisionResponse_def io_defs parse_default_def)

lemma parseDecisionResponse_object:
  "match_braces response = Some jsonMatch \<Longrightarrow> JSON_parse env jsonMatch = Inr (Object members) \<Longrightarrow>
   parseDecisionResponse env response w =
     (Inr \<lparr> action = (case map_of members (utf16 ''action'') of None \<Rightarrow> Undefined | Some x \<Rightarrow> x),
            reasoning = (case map_of members (utf16 ''reasoning'') of None \<Rightarrow> Undefined | Some x \<Rightarrow> x),
            confidence = (case map_of members (utf16 ''confidence'') of None \<Rightarrow> Undefined | Some x \<Rightarrow> x) \<rparr>,
      w)"
  by (simp add: parseDecisionResponse_def io_defs)

lemma decide_model_path:
  assumes "WATSONX_API_KEY env = Some key" "key \<noteq> []"
    and "callWatsonxAPI env (decide_prompt state) w = (Inr response, w')"
  shows "decide env state w = parseDecisionResponse env response w'"
proof -
  obtain res w'' where p: "parseDecisionResponse env response w' = (res, w'')"
    by (cases "parseDecisionResponse env response w'")
  moreover have "\<exists>d. res = Inr d"
    using p by (auto simp: parseDecisionResponse_def io_defs split: option.splits sum.splits prod.splits)
  ultimately show ?thesis
    using assms by (auto simp: decide_def io_defs)
qed

text \<open>
  C5 (as the code has it). On the model path, a response without a brace-delimited block, or
  one whose block \<open>JSON.parse\<close> rejects, gives the fixed default decision (SLEEP, confidence 0,
  "Error parsing AI decision, defaulting to sleep") whatever the state, and the failure is
  logged; a block that parses to an object is returned as parsed, its three members
  unchecked and \<open>undefined\<close> when absent. The rule table is not consulted on this path.
\<close>

theorem decide_parse_failure:
  assumes "WATSONX_API_KEY env = Some key" and "key \<noteq> []"
    and "callWatsonxAPI env (decide_prompt state) w = (Inr response, w')"
  shows "(match_braces response = None
            \<or> (\<exists>jsonMatch e. match_braces response = Some jsonMatch \<and> JSON_parse env jsonMatch = Inl e)
          \<longrightarrow> (\<exists>e. decide env state w =
                 (Inr \<lparr> action = SLEEP,
                        reasoning = String (utf16 ''Error parsing AI decision, defaulting to sleep''),
                        confidence = Number 0 \<rparr>,
                  w'\<lparr>console := console w' @ [ErrorParseDecision e]\<rparr>)))
       \<and> (\<forall>jsonMatch members.
            match_braces response = Some jsonMatch \<and> JSON_parse env jsonMatch = Inr (Object members)
            \<longrightarrow> decide env state w =
                 (Inr \<lparr> action = (case map_of members (utf16 ''action'') of None \<Rightarrow> Undefined | Some x \<Rightarrow> x),
                        reasoning = (case map_of members (utf16 ''reasoning'') of None \<Rightarrow> Undefined | Some x \<Rightarrow> x),
                        confidence = (case map_of members (utf16 ''confidence'') of None \<Rightarrow> Undefined | Some x \<Rightarrow> x) \<rparr>,
                  w'))"
  unfolding decide_model_path [OF assms]
  using parseDecisionResponse_no_match [of response env w']
    parseDecisionResponse_bad_json [of response _ env _ w']
    parseDecisionResponse_object [of response _ env _ w']
  by (auto simp: parse_default_def)

text \<open>The rule table is used when no key is set, or when the call to the model throws.\<close>

lemma decide_offline:
  "WATSONX_API_KEY env = None \<or> WATSONX_API_KEY env = Some [] \<Longrightarrow>
   decide env state w = (Inr (fallbackDecide state), w)"
  by (auto simp: decide_def io_defs)

lemma decide_api_throws:
  "WATSONX_API_KEY env = Some key \<Longrightarrow> key \<noteq> [] \<Longrightarrow>
   callWatsonxAPI env (decide_prompt state) w = (Inl e, w') \<Longrightarrow>
   decide env state w = (Inr (fallbackDecide state), w'\<lparr>console := console w' @ [WarnApiUnavailable]\<rparr>)"
  by (auto simp: decide_def io_defs)

lemma match_braces_no_brace: "match_braces (utf16 ''no decision'') = None"
  by (simp add: match_braces_def utf16_def c16_def)

text \<open>
  With a key configured, a High state of risk 80 and a response without any brace, \<open>decide\<close>
  returns SLEEP with confidence 0, where the rule table gives DEEP with confidence 98.
\<close>

theorem decide_parse_failure_counterexample:
  "match_braces (utf16 ''no decision'') = None
   \<and> decide \<lparr> WATSONX_API_KEY = Some (utf16 ''key''),
              callWatsonxAPI = (\<lambda>prompt. io_return (utf16 ''no decision'')),
              JSON_parse = (\<lambda>text. Inl SyntaxError) \<rparr>
        \<lparr> priority = H, risk = 80, depth = 1, address = utf16 ''0xabc'', lastScanned = None \<rparr>
        quiet
     = (Inr \<lparr> action = SLEEP,
              reasoning = String (utf16 ''Error parsing AI decision, defaulting to sleep''),
              confidence = Number 0 \<rparr>,
        \<lparr> console = [ErrorParseDecision (Error (utf16 ''No JSON found in response''))], outside = () \<rparr>)
   \<and> fallbackDecide \<lparr> priority = H, risk = 80, depth = 1, address = utf16 ''0xabc'', lastScanned = None \<rparr>
     = \<lparr> action = DEEP,
         reasoning = String (utf16 ''Critical priority with high risk requires deep analysis''),
         confidence = Number 98 \<rparr>
   \<and> fst (decide \<lparr> WATSONX_API_KEY = Some (utf16 ''key''),
              callWatsonxAPI = (\<lambda>prompt. io_return (utf16 ''no decision'')),
              JSON_parse = (\<lambda>text. Inl SyntaxError) \<rparr>
        \<lparr> priority = H, risk = 80, depth = 1, address = utf16 ''0xabc'', lastScanned = None \<rparr>
        quiet)
     \<noteq> Inr (fallbackDecide
              \<lparr> priority = H, risk = 80, depth = 1, address = utf16 ''0xabc'', lastScanned = None \<rparr>)"
proof -
  have k: "utf16 ''key'' \<noteq> []" by (simp add: utf16_def)
  show ?thesis
    using match_braces_no_brace
    by (simp add: decide_def parseDecisionResponse_no_match parse_default_def io_defs k
        fallbackDecide_def utf16_inject)
qed

theorem decide_parse_failure_witness:
  "decide \<lparr> WATSONX_API_KEY = Some (utf16 ''key''),
            callWatsonxAPI = (\<lambda>prompt. io_return (utf16 ''I say {}, ok?'')),
            JSON_parse = (\<lambda>text. if text = utf16 ''{}'' then Inr (Object []) else Inl SyntaxError) \<rparr>
        \<lparr> priority = H, risk = 80, depth = 1, address = utf16 ''0xabc'', lastScanned = None \<rparr>
        \<lparr> console = [], outside = () \<rparr>
     = (Inr \<lparr> action = Undefined, reasoning = Undefined, confidence = Undefined \<rparr>,
        \<lparr> console = [], outside = () \<rparr>)
   \<and> (\<exists>e. decide \<lparr> WATSONX_API_KEY = Some (utf16 ''key''),
            callWatsonxAPI = (\<lambda>prompt. io_return (utf16 ''{action}'')),
            JSON_parse = (\<lambda>text. if text = utf16 ''{}'' then Inr (Object []) else Inl SyntaxError) \<rparr>
        \<lparr> priority = H, risk = 80, depth = 1, address = utf16 ''0xabc'', lastScanned = None \<rparr>
        \<lparr> console = [], outside = () \<rparr>
     = (Inr \<lparr> action = SLEEP,
              reasoning = String (utf16 ''Error parsing AI decision, defaulting to sleep''),
              confidence = Number 0 \<rparr>,
        \<lparr> console = [ErrorParseDecision e], outside = () \<rparr>))"
proof -
  let ?st = "\<lparr> priority = H, risk = 80, depth = 1, address = utf16 ''0xabc'', lastScanned = None \<rparr>"
  let ?w = "\<lparr> console = [], outside = () \<rparr>"
  let ?J = "\<lambda>text. if text = utf16 ''{}'' then Inr (Object []) else Inl SyntaxError"
  let ?env1 = "\<lparr> WATSONX_API_KEY = Some (utf16 ''key''),
            callWatsonxAPI = (\<lambda>prompt. io_return (utf16 ''I say {}, ok?'')) :: jsstring \<Rightarrow> (jsstring, unit) io,
            JSON_parse = ?J \<rparr>"
  let ?env2 = "\<lparr> WATSONX_API_KEY = Some (utf16 ''key''),
            callWatsonxAPI = (\<lambda>prompt. io_return (utf16 ''{action}'')) :: jsstring \<Rightarrow> (jsstring, unit) io,
            JSON_parse = ?J \<rparr>"
  have k: "utf16 ''key'' \<noteq> []" by (simp add: utf16_def)
  have m1: "match_braces (utf16 ''I say {}, ok?'') = Some (utf16 ''{}'')"
    by (simp add: match_braces_def utf16_def c16_def)
  have m2: "match_braces (utf16 ''{action}'') = Some (utf16 ''{action}'')"
    by (simp add: match_braces_def utf16_def c16_def)
  from decide_parse_failure [of ?env1 "utf16 ''key''" ?st ?w "utf16 ''I say {}, ok?''" ?w]
       decide_parse_failure [of ?env2 "utf16 ''key''" ?st ?w "utf16 ''{action}''" ?w]
  show ?thesis
    by (simp add: k m1 m2 io_return_def utf16_inject)
qed

section \<open>Properties of the prioritizer\<close>

lemma abs_mod3_cases: "\<bar>h::int\<bar> mod 3 = 0 \<or> \<bar>h\<bar> mod 3 = 1 \<or> \<bar>h\<bar> mod 3 = 2"
  by presburger

lemma abs_js_rem: "b \<noteq> 0 \<Longrightarrow> \<bar>js_rem a b\<bar> = \<bar>a\<bar> mod \<bar>b\<bar>"
  by (cases "a = 0") (simp_all add: js_rem_def abs_mult)

lemma generateMockPrioritization_coupled:
  "(priority (generateMockPrioritization addr) = H \<longleftrightarrow> depth (generateMockPrioritization addr) = 1)
 \<and> (priority (generateMockPrioritization addr) = M \<longleftrightarrow> depth (generateMockPrioritization addr) = 2)
 \<and> (priority (generateMockPrioritization addr) = L \<longleftrightarrow> depth (generateMockPrioritization addr) = 3)
 \<and> 0 \<le> risk (generateMockPrioritization addr) \<and> risk (generateMockPrioritization addr) \<le> 99"
proof -
  define h where "h = foldl hash_step 0 addr"
  have g: "generateMockPrioritization addr =
      \<lparr> priority = priorityMap ! nat (\<bar>h\<bar> mod 3), risk = \<bar>js_rem h 100\<bar>, depth = (\<bar>h\<bar> mod 3) + 1 \<rparr>"
    by (simp add: generateMockPrioritization_def h_def Let_def)
  have "\<bar>js_rem h 100\<bar> = \<bar>h\<bar> mod 100"
    by (simp add: abs_js_rem)
  then have "0 \<le> \<bar>js_rem h 100\<bar> \<and> \<bar>js_rem h 100\<bar> \<le> 99"
    by simp
  with abs_mod3_cases [of h] show ?thesis
    unfolding g by (auto simp: priorityMap_def)
qed

text \<open>
  C10. Offline, \<open>prioritize\<close> returns the mock result for every address: tier and depth come
  from the same residue of the hash modulo 3, so the tier is H exactly when the depth is 1, M
  exactly when it is 2, L exactly when it is 3, and the risk lies between 0 and 99.
\<close>

theorem prioritize_offline_coupled:
  "prioritize addr w = (Inr (generateMockPrioritization addr), w)
   \<and> (priority (generateMockPrioritization addr) = H \<longleftrightarrow> depth (generateMockPrioritization addr) = 1)
   \<and> (priority (generateMockPrioritization addr) = M \<longleftrightarrow> depth (generateMockPrioritization addr) = 2)
   \<and> (priority (generateMockPrioritization addr) = L \<longleftrightarrow> depth (generateMockPrioritization addr) = 3)
   \<and> 0 \<le> risk (generateMockPrioritization addr)
   \<and> risk (generateMockPrioritization addr) \<le> 99"
  using generateMockPrioritization_coupled [of addr]
  by (simp add: prioritize_def try_catch_def io_return_def)

section \<open>Properties of the scanner\<close>

lemma count_rValues_mock:
  "count_rValues [] (extractSignatures addr) =
     [(utf16 ''0x1234567890abcdef1234567890abcdef1234567890abcdef1234567890abcdef'', 2)]"
  by (simp add: extractSignatures_def)

lemma nat_toString_2: "nat_toString 2 = utf16 ''2''"
  by (simp add: nat_toString.simps utf16_def c16_def)

lemma scan_extracted:
  "scan addr = Inr (Some \<lparr> type = nonce_reuse,
      details = utf16 ''Found 2 signatures with same R value (0x12345678...). Private key recovery is possible.'',
      severity = 95 \<rparr>)"
  by (simp add: scan_def scan_signatures_def nonceReuse_def count_rValues_mock nat_toString_2)
    (simp add: extractSignatures_def utf16_def)

text \<open>
  C9. The signature source gives the same signatures for every address, and for every
  address \<open>scan\<close> returns the nonce-reuse finding with severity 95: the two signatures share
  their \<open>r\<close>, so the first check reports and the later checks are not reached.
\<close>

theorem scan_mock:
  "extractSignatures addr = extractSignatures addr'
   \<and> nonceReuse (extractSignatures addr) \<noteq> None
   \<and> scan addr = Inr (Some \<lparr> type = nonce_reuse,
      details = utf16 ''Found 2 signatures with same R value (0x12345678...). Private key recovery is possible.'',
      severity = 95 \<rparr>)"
  using scan_extracted [of addr]
  by (simp add: extractSignatures_def nonceReuse_def count_rValues_mock [unfolded extractSignatures_def])

lemma map_of_count_rValues:
  "map_of (count_rValues m sigs) k =
     (if map_of m k = None \<and> occurrences k sigs = 0 then None
      else Some ((case map_of m k of None \<Rightarrow> 0 | Some c \<Rightarrow> c) + occurrences k sigs))"
proof (induction sigs arbitrary: m)
  case Nil
  then show ?case by (auto simp: occurrences_def)
next
  case (Cons sig sigs)
  show ?case
    by (simp add: Cons.IH Let_def update_conv occurrences_def split: option.splits)
qed

lemma distinct_count_rValues:
  "distinct (map fst m) \<Longrightarrow> distinct (map fst (count_rValues m sigs))"
  by (induction sigs arbitrary: m) (simp_all add: Let_def distinct_update)

lemma count_rValues_entry:
  "(k, c) \<in> set (count_rValues [] sigs) \<longleftrightarrow> c = occurrences k sigs \<and> c > 0"
proof -
  have "(k, c) \<in> set (count_rValues [] sigs) \<longleftrightarrow> map_of (count_rValues [] sigs) k = Some c"
    using distinct_count_rValues [of "[]" sigs] by simp
  then show ?thesis
    by (auto simp: map_of_count_rValues)
qed

lemma occurrences_ge_2:
  assumes "i < j" "j < length sigs" "r (sigs ! i) = r (sigs ! j)"
  shows "occurrences (r (sigs ! i)) sigs \<ge> 2"
proof -
  let ?P = "\<lambda>sig. r sig = r (sigs ! i)"
  have split: "sigs = take j sigs @ sigs ! j # drop (Suc j) sigs"
    using assms(2) by (simp add: id_take_nth_drop)
  have "sigs ! i \<in> set (take j sigs)"
    using assms(1,2) by (metis in_set_conv_nth length_take min.absorb2 less_imp_le nth_take)
  then have "length (filter ?P (take j sigs)) \<ge> 1"
    by (metis (mono_tags, lifting) One_nat_def Suc_leI filter_empty_conv length_greater_0_conv)
  moreover have "length (filter ?P sigs) =
      length (filter ?P (take j sigs)) + length (filter ?P (sigs ! j # drop (Suc j) sigs))"
    by (subst split) simp
  moreover have "length (filter ?P (sigs ! j # drop (Suc j) sigs)) \<ge> 1"
    using assms(3) by simp
  ultimately show ?thesis
    by (simp add: occurrences_def)
qed

lemma nonceReuse_fires:
  assumes "i < j" "j < length sigs" "r (sigs ! i) = r (sigs ! j)"
  shows "\<exists>k. nonceReuse sigs =
           Some \<lparr> type = nonce_reuse,
                  details = utf16 ''Found '' @ nat_toString (occurrences k sigs)
                    @ utf16 '' signatures with same R value ('' @ take 10 k
                    @ utf16 ''...). Private key recovery is possible.'',
                  severity = 95 \<rparr>
         \<and> occurrences k sigs \<ge> 2"
proof -
  let ?m = "count_rValues [] sigs"
  let ?P = "\<lambda>(k, count). count > (1::nat)"
  from occurrences_ge_2 [OF assms]
  have "(r (sigs ! i), occurrences (r (sigs ! i)) sigs) \<in> set ?m"
    by (simp add: count_rValues_entry)
  moreover have "?P (r (sigs ! i), occurrences (r (sigs ! i)) sigs)"
    using occurrences_ge_2 [OF assms] by simp
  ultimately have "List.find ?P ?m \<noteq> None"
    by (metis (no_types, lifting) find_None_iff)
  then obtain k c where f: "List.find ?P ?m = Some (k, c)"
    by (cases "List.find ?P ?m") auto
  then have "(k, c) \<in> set ?m" "c > 1"
    by (auto simp: find_Some_iff in_set_conv_nth)
  then have c: "c = occurrences k sigs" "occurrences k sigs \<ge> 2"
    by (auto simp: count_rValues_entry)
  show ?thesis
    using f c by (intro exI [of _ k]) (simp add: nonceReuse_def)
qed

text \<open>
  C1. Whenever two signatures of the set, at different positions, have the same \<open>r\<close>, the
  scan returns a nonce-reuse finding of severity 95, whatever the \<open>s\<close> values are; its detail
  text names a repeated \<open>r\<close>, cut to its first ten code units, and the number of signatures
  that carry it.
\<close>

theorem scan_nonce_reuse:
  assumes "i < j" "j < length sigs" "r (sigs ! i) = r (sigs ! j)"
  shows "\<exists>k. scan_signatures sigs =
           Inr (Some \<lparr> type = nonce_reuse,
                  details = utf16 ''Found '' @ nat_toString (length (filter (\<lambda>sig. r sig = k) sigs))
                    @ utf16 '' signatures with same R value ('' @ take 10 k
                    @ utf16 ''...). Private key recovery is possible.'',
                  severity = 95 \<rparr>)
         \<and> length (filter (\<lambda>sig. r sig = k) sigs) \<ge> 2"
proof -
  from nonceReuse_fires [OF assms] obtain k where
    "nonceReuse sigs =
           Some \<lparr> type = nonce_reuse,
                  details = utf16 ''Found '' @ nat_toString (occurrences k sigs)
                    @ utf16 '' signatures with same R value ('' @ take 10 k
                    @ utf16 ''...). Private key recovery is possible.'',
                  severity = 95 \<rparr>" "occurrences k sigs \<ge> 2"
    by blast
  moreover have "\<not> length sigs < 2"
    using assms(1,2) by simp
  ultimately show ?thesis
    by (intro exI [of _ k]) (simp add: scan_signatures_def occurrences_def)
qed

theorem scan_nonce_reuse_witness:
  "(0::nat) < 2 \<and> (2::nat) < length ([\<lparr> r = utf16 ''0xaa'', s = utf16 ''0x1'', v = 27, hash = utf16 ''0xh'' \<rparr>,
      \<lparr> r = utf16 ''0xbb'', s = utf16 ''0x1'', v = 27, hash = utf16 ''0xh'' \<rparr>,
      \<lparr> r = utf16 ''0xaa'', s = utf16 ''0x1'', v = 27, hash = utf16 ''0xh'' \<rparr>])
   \<and> (\<exists>k. scan_signatures ([\<lparr> r = utf16 ''0xaa'', s = utf16 ''0x1'', v = 27, hash = utf16 ''0xh'' \<rparr>,
      \<lparr> r = utf16 ''0xbb'', s = utf16 ''0x1'', v = 27, hash = utf16 ''0xh'' \<rparr>,
      \<lparr> r = utf16 ''0xaa'', s = utf16 ''0x1'', v = 27, hash = utf16 ''0xh'' \<rparr>]) =
           Inr (Some \<lparr> type = nonce_reuse,
                  details = utf16 ''Found '' @ nat_toString (length (filter (\<lambda>sig. r sig = k) ([\<lparr> r = utf16 ''0xaa'', s = utf16 ''0x1'', v = 27, hash = utf16 ''0xh'' \<rparr>,
      \<lparr> r = utf16 ''0xbb'', s = utf16 ''0x1'', v = 27, hash = utf16 ''0xh'' \<rparr>,
      \<lparr> r = utf16 ''0xaa'', s = utf16 ''0x1'', v = 27, hash = utf16 ''0xh'' \<rparr>])))
                    @ utf16 '' signatures with same R value ('' @ take 10 k
                    @ utf16 ''...). Private key recovery is possible.'',
                  severity = 95 \<rparr>)
         \<and> length (filter (\<lambda>sig. r sig = k) ([\<lparr> r = utf16 ''0xaa'', s = utf16 ''0x1'', v = 27, hash = utf16 ''0xh'' \<rparr>,
      \<lparr> r = utf16 ''0xbb'', s = utf16 ''0x1'', v = 27, hash = utf16 ''0xh'' \<rparr>,
      \<lparr> r = utf16 ''0xaa'', s = utf16 ''0x1'', v = 27, hash = utf16 ''0xh'' \<rparr>])) \<ge> 2)"
  using scan_nonce_reuse [of 0 2 "[\<lparr> r = utf16 ''0xaa'', s = utf16 ''0x1'', v = 27, hash = utf16 ''0xh'' \<rparr>,
      \<lparr> r = utf16 ''0xbb'', s = utf16 ''0x1'', v = 27, hash = utf16 ''0xh'' \<rparr>,
      \<lparr> r = utf16 ''0xaa'', s = utf16 ''0x1'', v = 27, hash = utf16 ''0xh'' \<rparr>]"]
  by simp

subsection \<open>The binary64 product in the weak-nonce test\<close>

lemma bit_length_upper: "n < 2 ^ bit_length n"
proof (induction n rule: bit_length.induct)
  case (1 n)
  show ?case
  proof (cases "n = 0")
    case True
    then show ?thesis by (simp add: bit_length.simps)
  next
    case False
    with 1 have "n div 2 < 2 ^ bit_length (n div 2)" by simp
    then have "n < 2 * 2 ^ bit_length (n div 2)" by linarith
    with False show ?thesis by (subst bit_length.simps) simp
  qed
qed

lemma bit_length_lower: "n \<noteq> 0 \<Longrightarrow> 2 ^ bit_length n \<le> 2 * n"
proof (induction n rule: bit_length.induct)
  case (1 n)
  show ?case
  proof (cases "n div 2 = 0")
    case True
    with 1(2) have "n = 1" by (simp add: div_eq_0_iff) 
    then show ?thesis by (simp add: bit_length.simps)
  next
    case False
    with 1 have "2 ^ bit_length (n div 2) \<le> 2 * (n div 2)" by simp
    then have "2 * 2 ^ bit_length (n div 2) \<le> 2 * n" by linarith
    with 1(2) show ?thesis by (subst bit_length.simps) simp
  qed
qed

text \<open>the rounding error is at most half a unit in the last place, and the result is a multiple of the unit\<close>
lemma round_to_53_bits_near:
  assumes "bit_length n > 53"
  shows "round_to_53_bits n \<le> n + 2 ^ (bit_length n - 54)"
    and "n \<le> round_to_53_bits n + 2 ^ (bit_length n - 54)"
proof -
  define sh where "sh = bit_length n - 53"
  define u :: nat where "u = 2 ^ sh"
  define hf :: nat where "hf = 2 ^ (sh - 1)"
  have sh: "sh \<ge> 1" using assms by (simp add: sh_def)
  have u: "u = 2 * hf"
    using sh by (simp add: u_def hf_def flip: power_Suc)
  have hf: "hf = 2 ^ (bit_length n - 54)"
    by (simp add: hf_def sh_def)
  define q where "q = n div u"
  define rest where "rest = n mod u"
  have n: "n = q * u + rest" by (simp add: q_def rest_def)
  have rest: "rest < u" by (simp add: rest_def u_def)
  have rd: "round_to_53_bits n = (if rest > hf \<or> (rest = hf \<and> odd q) then q + 1 else q) * u"
    using assms by (simp add: round_to_53_bits_def Let_def sh_def u_def hf_def q_def rest_def)
  show "round_to_53_bits n \<le> n + 2 ^ (bit_length n - 54)"
    unfolding rd hf [symmetric] using n rest u by (auto simp: algebra_simps)
  show "n \<le> round_to_53_bits n + 2 ^ (bit_length n - 54)"
    unfolding rd hf [symmetric] using n rest u by (auto simp: algebra_simps)
qed

lemma round_to_53_bits_exact:
  assumes "bit_length n > 53" "m * 2 ^ (bit_length n - 53) = n + d" "d < 2 ^ (bit_length n - 54)"
  shows "round_to_53_bits n = n + d"
proof -
  define sh where "sh = bit_length n - 53"
  define u :: nat where "u = 2 ^ sh"
  define hf :: nat where "hf = 2 ^ (sh - 1)"
  have sh: "sh \<ge> 1" using assms by (simp add: sh_def)
  have u: "u = 2 * hf"
    using sh by (simp add: u_def hf_def flip: power_Suc)
  have hf: "hf = 2 ^ (bit_length n - 54)"
    by (simp add: hf_def sh_def)
  have hf1: "hf \<ge> 1" by (simp add: hf_def)
  define q where "q = n div u"
  define rest where "rest = n mod u"
  have rd: "round_to_53_bits n = (if rest > hf \<or> (rest = hf \<and> odd q) then q + 1 else q) * u"
    using assms by (simp add: round_to_53_bits_def Let_def sh_def u_def hf_def q_def rest_def)
  have mu: "m * u = n + d" using assms(2) by (simp add: u_def sh_def)
  have d: "d < hf" using assms(3) hf by simp
  show ?thesis
  proof (cases "d = 0")
    case True
    with mu have "n = m * u" by simp
    then have "q = m" "rest = 0" using u hf1 by (simp_all add: q_def rest_def)
    with hf1 rd mu True show ?thesis by simp
  next
    case False
    then have "m \<ge> 1" using mu by (cases m) auto
    have "n = (m - 1) * u + (u - d)"
      using mu d u \<open>m \<ge> 1\<close> by (cases m) (auto simp: algebra_simps)
    moreover have "u - d < u" using False u hf1 by simp
    ultimately have "q = m - 1" "rest = u - d"
      unfolding q_def rest_def by (simp_all add: add.commute [of "(m - 1) * u"])
    moreover have "u - d > hf" using d u by simp
    ultimately show ?thesis
      using rd mu \<open>m \<ge> 1\<close> by simp
  qed
qed

lemma bit_length_gt_53: "n \<ge> 2 ^ 53 \<Longrightarrow> bit_length n > 53"
proof (rule ccontr)
  assume n: "n \<ge> 2 ^ 53" and "\<not> bit_length n > 53"
  then have "bit_length n \<le> 53" by simp
  then have "(2::nat) ^ bit_length n \<le> 2 ^ 53"
    by (rule power_increasing) simp
  with bit_length_upper [of n] n show False by linarith
qed

lemma half_unit_bound:
  assumes "bit_length n > 53"
  shows "2 ^ (bit_length n - 54) * 18014398509481984 \<le> 2 * n"
    and "(2::nat) ^ (bit_length n - 54) * 18014398509481984 = 2 ^ bit_length n"
proof -
  have "(2::nat) ^ (bit_length n - 54) * 2 ^ 54 = 2 ^ (bit_length n - 54 + 54)"
    by (simp only: power_add)
  also have "bit_length n - 54 + 54 = bit_length n"
    using assms by simp
  finally have "(2::nat) ^ (bit_length n - 54) * 2 ^ 54 = 2 ^ bit_length n" .
  then show e: "(2::nat) ^ (bit_length n - 54) * 18014398509481984 = 2 ^ bit_length n"
    by simp
  have "n \<noteq> 0"
  proof
    assume "n = 0"
    then have "bit_length n = 0" by (simp add: bit_length.simps)
    with assms show False by simp
  qed
  from bit_length_lower [OF this] e
  show "2 ^ (bit_length n - 54) * 18014398509481984 \<le> 2 * n" by simp
qed

lemma length_times_03_gt:
  assumes len: "len < 2 ^ 32"
  shows "k * 2 ^ 54 > length_times_03 len \<longleftrightarrow> 10 * k > 3 * len"
proof -
  define N where "N = len * 5404319552844595"
  define R where "R = round_to_53_bits N"
  have R: "length_times_03 len = R"
    by (simp add: length_times_03_def R_def N_def)
  have len': "len < 4294967296" using len by simp
  have near: "R \<le> N + 4294967296 \<and> N \<le> R + 4294967296"
  proof (cases "bit_length N > 53")
    case True
    from half_unit_bound(1) [OF True] len'
    have "(2::nat) ^ (bit_length N - 54) \<le> 4294967296"
      unfolding N_def by linarith
    with round_to_53_bits_near [OF True] show ?thesis
      unfolding R_def by linarith
  next
    case False
    then show ?thesis by (simp add: R_def round_to_53_bits_def)
  qed
  consider (above) "10 * k > 3 * len" | (below) "10 * k < 3 * len" | (tie) "10 * k = 3 * len"
    by linarith
  then have "k * 18014398509481984 > R \<longleftrightarrow> 10 * k > 3 * len"
  proof cases
    case above
    with near len' have "k * 18014398509481984 > R"
      unfolding N_def by linarith
    with above show ?thesis by simp
  next
    case below
    with near len' have "\<not> k * 18014398509481984 > R"
      unfolding N_def by linarith
    with below show ?thesis by simp
  next
    case tie
    show ?thesis
    proof (cases "len = 0")
      case True
      with tie show ?thesis by (simp add: R_def N_def round_to_53_bits_def bit_length.simps)
    next
      case False
      from tie have "3 dvd 10 * k" by simp
      then have "3 dvd k" by presburger 
      then obtain m where k: "k = 3 * m" by (auto simp: dvd_def)
      with tie have l: "len = 10 * m" by simp
      with False have m: "m \<ge> 1" by simp
      have Nm: "N + 2 * m = k * 18014398509481984"
        by (simp add: N_def k l)
      have "N \<ge> 2 ^ 53" using m by (simp add: N_def l)
      then have big: "bit_length N > 53" by (rule bit_length_gt_53)
      have "(2::nat) ^ bit_length N \<le> 2 * N"
        using bit_length_lower [of N] m by (simp add: N_def l)
      also have "\<dots> < 2 ^ 107"
        using len' by (simp add: N_def)
      finally have "(2::nat) ^ bit_length N < 2 ^ 107" .
      then have "bit_length N < 107"
        by (rule power_less_imp_less_exp [rotated]) simp
      then have "107 - bit_length N + (bit_length N - 53) = 54"
        using big by simp
      then have "(2::nat) ^ (107 - bit_length N) * 2 ^ (bit_length N - 53) = 2 ^ 54"
        by (simp only: flip: power_add)
      then have "(k * 2 ^ (107 - bit_length N)) * 2 ^ (bit_length N - 53) = k * 2 ^ 54"
        by (simp add: mult.assoc)
      then have mult: "(k * 2 ^ (107 - bit_length N)) * 2 ^ (bit_length N - 53) = N + 2 * m"
        using Nm by simp
      have "2 ^ (bit_length N - 54) * 18014398509481984 > N"
        using half_unit_bound(2) [OF big] bit_length_upper [of N] by simp
      with Nm k len' l have small: "2 * m < 2 ^ (bit_length N - 54)"
        by simp
      from round_to_53_bits_exact [OF big mult small] Nm
      have "R = k * 18014398509481984" by (simp add: R_def)
      with tie show ?thesis by simp
    qed
  qed
  then show ?thesis by (simp add: R)
qed

subsection \<open>Polynomial and weak nonces\<close>

lemmas BigInt_eval = BigInt_def StringToBigInt_def utf16_def c16_def trimString_def
  isStrWhiteSpaceChar_def parseDigits_def digitValue_def

lemma occurrences_distinct: "distinct (map r sigs) \<Longrightarrow> occurrences k sigs \<le> 1"
proof (induction sigs)
  case Nil
  then show ?case by (simp add: occurrences_def)
next
  case (Cons sig sigs)
  show ?case
  proof (cases "r sig = k")
    case True
    with Cons.prems have "k \<notin> r ` set sigs" by simp
    then have "\<forall>x\<in>set sigs. r x \<noteq> k" by blast
    then have "filter (\<lambda>sig. r sig = k) sigs = []" by (simp add: filter_empty_conv)
    with True show ?thesis by (simp add: occurrences_def)
  next
    case False
    with Cons show ?thesis by (simp add: occurrences_def)
  qed
qed

lemma nonceReuse_distinct: "distinct (map r sigs) \<Longrightarrow> nonceReuse sigs = None"
proof -
  assume d: "distinct (map r sigs)"
  have "List.find (\<lambda>(k, count). count > 1) (count_rValues [] sigs) = None"
  proof (rule ccontr)
    assume "List.find (\<lambda>(k, count). count > 1) (count_rValues [] sigs) \<noteq> None"
    then obtain k c where "List.find (\<lambda>(k, count). count > 1) (count_rValues [] sigs) = Some (k, c)"
      by auto
    then have "(k, c) \<in> set (count_rValues [] sigs)" "c > 1"
      by (auto simp: find_Some_iff in_set_conv_nth)
    then have "occurrences k sigs > 1" by (simp add: count_rValues_entry)
    with occurrences_distinct [OF d, of k] show False by simp
  qed
  then show ?thesis by (simp add: nonceReuse_def)
qed

lemma rInts_of_iff:
  "rInts_of sigs = Inr ns \<longleftrightarrow> map (\<lambda>sig. BigInt (r sig)) sigs = map Inr ns"
proof (induction sigs arbitrary: ns)
  case Nil
  then show ?case by auto
next
  case (Cons sig sigs)
  show ?case
    by (cases ns) (auto simp: Cons.IH [symmetric] split: sum.splits)
qed

lemma length_differences: "length (differences xs) = length xs - 1"
  by (induction xs rule: differences.induct) simp_all

lemma polynomialAttack_iff:
  assumes "length sigs \<ge> 3" "rInts_of sigs = Inr rInts"
  shows "polynomialAttack sigs =
     (if list_all (\<lambda>d. 0 \<le> d \<and> d < 1000) (differences (differences rInts))
      then Inr (Some \<lparr> type = polynomial_attack,
                  details = utf16 ''Detected polynomial nonce generation pattern. Nonce sequence is predictable.'',
                  severity = 85 \<rparr>)
      else Inr None)"
proof -
  have "length rInts = length sigs"
    using assms(2) by (metis rInts_of_iff length_map)
  then have "length (differences rInts) \<ge> 2"
    using assms(1) by (simp add: length_differences)
  moreover have "(\<lambda>d::int. d = 0 \<or> (d > 0 \<and> d < 1000)) = (\<lambda>d. 0 \<le> d \<and> d < 1000)"
    by auto
  ultimately show ?thesis
    using assms by (simp add: polynomialAttack_def Let_def)
qed

text \<open>
  The second differences, by position: entry \<open>i\<close> is the difference of the two consecutive
  differences of the values at \<open>i\<close>, \<open>i + 1\<close> and \<open>i + 2\<close>.
\<close>

lemma nth_differences:
  "Suc i < length xs \<Longrightarrow> differences xs ! i = xs ! Suc i - xs ! i"
proof (induction xs arbitrary: i rule: differences.induct)
  case (1 a b xs)
  then show ?case by (cases i) simp_all
qed simp_all

lemma second_differences_all:
  "list_all P (differences (differences xs)) \<longleftrightarrow>
     (\<forall>i. i + 2 < length xs \<longrightarrow> P ((xs ! (i + 2) - xs ! (i + 1)) - (xs ! (i + 1) - xs ! i)))"
proof -
  have "list_all P (differences (differences xs)) \<longleftrightarrow>
      (\<forall>i < length xs - 1 - 1. P (differences (differences xs) ! i))"
    by (simp add: list_all_length length_differences)
  also have "\<dots> \<longleftrightarrow> (\<forall>i. i + 2 < length xs \<longrightarrow> P (differences (differences xs) ! i))"
    by (auto simp: less_diff_conv)
  also have "\<dots> \<longleftrightarrow>
     (\<forall>i. i + 2 < length xs \<longrightarrow> P ((xs ! (i + 2) - xs ! (i + 1)) - (xs ! (i + 1) - xs ! i)))"
  proof -
    have "differences (differences xs) ! i = (xs ! (i + 2) - xs ! (i + 1)) - (xs ! (i + 1) - xs ! i)"
      if "i + 2 < length xs" for i
    proof -
      have "differences (differences xs) ! i = differences xs ! Suc i - differences xs ! i"
        using that by (intro nth_differences) (simp add: length_differences)
      also have "differences xs ! Suc i = xs ! Suc (Suc i) - xs ! Suc i"
        using that by (intro nth_differences) simp
      also have "differences xs ! i = xs ! Suc i - xs ! i"
        using that by (intro nth_differences) simp
      finally show ?thesis by simp
    qed
    then show ?thesis by auto
  qed
  finally show ?thesis .
qed

lemma weakNonce_type:
  "weakNonce sigs = Inr (Some found) \<Longrightarrow> type found = weak_nonce"
  by (auto simp: weakNonce_def Let_def split: sum.splits if_splits)

text \<open>
  C6. For three or more signatures with pairwise different \<open>r\<close> strings, each of which
  \<open>BigInt\<close> reads as an integer, the scan returns the polynomial-attack finding of severity 85
  exactly when, at every position \<open>i\<close> of the signature array, the second difference
  \<open>(r[i+2] - r[i+1]) - (r[i+1] - r[i])\<close> of the values in array order is at least 0 and below 1000.
  The \<open>r\<close> values 100, 200, 300 give the finding; 100, 300, 200 do not.
\<close>

theorem scan_polynomial_iff:
  assumes "length sigs \<ge> 3"
    and "distinct (map r sigs)"
    and "map (\<lambda>sig. BigInt (r sig)) sigs = map Inr rInts"
  shows "scan_signatures sigs =
           Inr (Some \<lparr> type = polynomial_attack,
                  details = utf16 ''Detected polynomial nonce generation pattern. Nonce sequence is predictable.'',
                  severity = 85 \<rparr>)
         \<longleftrightarrow> (\<forall>i. i + 2 < length sigs \<longrightarrow>
                0 \<le> (rInts ! (i + 2) - rInts ! (i + 1)) - (rInts ! (i + 1) - rInts ! i)
              \<and> (rInts ! (i + 2) - rInts ! (i + 1)) - (rInts ! (i + 1) - rInts ! i) < 1000)"
proof -
  have ri: "rInts_of sigs = Inr rInts"
    using assms(3) by (simp add: rInts_of_iff)
  have len_eq: "length rInts = length sigs"
    using assms(3) by (metis length_map)
  have nr: "nonceReuse sigs = None"
    using assms(2) by (rule nonceReuse_distinct)
  have len: "\<not> length sigs < 2" using assms(1) by simp
  have cond: "list_all (\<lambda>d. 0 \<le> d \<and> d < 1000) (differences (differences rInts)) \<longleftrightarrow>
      (\<forall>i. i + 2 < length sigs \<longrightarrow>
                0 \<le> (rInts ! (i + 2) - rInts ! (i + 1)) - (rInts ! (i + 1) - rInts ! i)
              \<and> (rInts ! (i + 2) - rInts ! (i + 1)) - (rInts ! (i + 1) - rInts ! i) < 1000)"
    by (simp only: second_differences_all len_eq)
  show ?thesis
  proof (cases "list_all (\<lambda>d. 0 \<le> d \<and> d < 1000) (differences (differences rInts))")
    case True
    then have "scan_signatures sigs =
           Inr (Some \<lparr> type = polynomial_attack,
                  details = utf16 ''Detected polynomial nonce generation pattern. Nonce sequence is predictable.'',
                  severity = 85 \<rparr>)"
      using nr len by (simp add: scan_signatures_def polynomialAttack_iff [OF assms(1) ri])
    with True cond show ?thesis by blast
  next
    case False
    then have sc: "scan_signatures sigs = weakNonce sigs"
      using nr len by (simp add: scan_signatures_def polynomialAttack_iff [OF assms(1) ri])
    have "weakNonce sigs \<noteq> Inr (Some \<lparr> type = polynomial_attack,
                  details = utf16 ''Detected polynomial nonce generation pattern. Nonce sequence is predictable.'',
                  severity = 85 \<rparr>)"
      using weakNonce_type by fastforce
    with False sc cond show ?thesis by simp
  qed
qed

theorem scan_polynomial_iff_witness:
  "scan_signatures
     [\<lparr> r = utf16 ''100'', s = utf16 ''0x1'', v = 27, hash = utf16 ''0xh'' \<rparr>,
      \<lparr> r = utf16 ''200'', s = utf16 ''0x1'', v = 27, hash = utf16 ''0xh'' \<rparr>,
      \<lparr> r = utf16 ''300'', s = utf16 ''0x1'', v = 27, hash = utf16 ''0xh'' \<rparr>]
     = Inr (Some \<lparr> type = polynomial_attack,
                  details = utf16 ''Detected polynomial nonce generation pattern. Nonce sequence is predictable.'',
                  severity = 85 \<rparr>)
   \<and> scan_signatures
     [\<lparr> r = utf16 ''100'', s = utf16 ''0x1'', v = 27, hash = utf16 ''0xh'' \<rparr>,
      \<lparr> r = utf16 ''300'', s = utf16 ''0x1'', v = 27, hash = utf16 ''0xh'' \<rparr>,
      \<lparr> r = utf16 ''200'', s = utf16 ''0x1'', v = 27, hash = utf16 ''0xh'' \<rparr>]
     \<noteq> Inr (Some \<lparr> type = polynomial_attack,
                  details = utf16 ''Detected polynomial nonce generation pattern. Nonce sequence is predictable.'',
                  severity = 85 \<rparr>)"
proof -
  let ?up = "[\<lparr> r = utf16 ''100'', s = utf16 ''0x1'', v = 27, hash = utf16 ''0xh'' \<rparr>,
      \<lparr> r = utf16 ''200'', s = utf16 ''0x1'', v = 27, hash = utf16 ''0xh'' \<rparr>,
      \<lparr> r = utf16 ''300'', s = utf16 ''0x1'', v = 27, hash = utf16 ''0xh'' \<rparr>]"
  let ?zigzag = "[\<lparr> r = utf16 ''100'', s = utf16 ''0x1'', v = 27, hash = utf16 ''0xh'' \<rparr>,
      \<lparr> r = utf16 ''300'', s = utf16 ''0x1'', v = 27, hash = utf16 ''0xh'' \<rparr>,
      \<lparr> r = utf16 ''200'', s = utf16 ''0x1'', v = 27, hash = utf16 ''0xh'' \<rparr>]"
  have l: "3 \<le> length ?up" "3 \<le> length ?zigzag" by simp_all
  have d: "distinct (map r ?up)" "distinct (map r ?zigzag)"
    by (simp_all add: utf16_inject)
  have b1: "map (\<lambda>sig. BigInt (r sig)) ?up = map Inr [100, 200, 300]"
    by (simp add: BigInt_eval)
  have b2: "map (\<lambda>sig. BigInt (r sig)) ?zigzag = map Inr [100, 300, 200]"
    by (simp add: BigInt_eval)
  have i0: "i = 0" if "i + 2 < length ?up" for i :: nat
    using that by simp
  have j0: "i = 0" if "i + 2 < length ?zigzag" for i :: nat
    using that by simp
  have yes: "\<forall>i. i + 2 < length ?up \<longrightarrow>
                0 \<le> ([100, 200, 300::int] ! (i + 2) - [100, 200, 300] ! (i + 1)) - ([100, 200, 300] ! (i + 1) - [100, 200, 300] ! i)
              \<and> ([100, 200, 300::int] ! (i + 2) - [100, 200, 300] ! (i + 1)) - ([100, 200, 300] ! (i + 1) - [100, 200, 300] ! i) < 1000"
    using i0 by auto
  have no: "\<not> (\<forall>i. i + 2 < length ?zigzag \<longrightarrow>
                0 \<le> ([100, 300, 200::int] ! (i + 2) - [100, 300, 200] ! (i + 1)) - ([100, 300, 200] ! (i + 1) - [100, 300, 200] ! i)
              \<and> ([100, 300, 200::int] ! (i + 2) - [100, 300, 200] ! (i + 1)) - ([100, 300, 200] ! (i + 1) - [100, 300, 200] ! i) < 1000)"
    by (simp add: exI [of _ 0])
  from scan_polynomial_iff [OF l(1) d(1) b1] yes scan_polynomial_iff [OF l(2) d(2) b2] no
  show ?thesis by blast
qed

lemma weakNonce_eq:
  assumes "length sigs < 2 ^ 32" "rInts_of sigs = Inr rInts"
  shows "weakNonce sigs =
      (if 10 * length (filter (\<lambda>x. x < maxR div 1000) rInts) > 3 * length sigs then
         Inr (Some \<lparr> type = weak_nonce,
                details = nat_toString (length (filter (\<lambda>x. x < maxR div 1000) rInts))
                  @ utf16 '' out of '' @ nat_toString (length sigs)
                  @ utf16 '' signatures use low-entropy nonces.'',
                severity = 70 \<rparr>)
       else Inr None)"
  using assms(2) length_times_03_gt [OF assms(1)]
  by (simp add: weakNonce_def Let_def)

text \<open>
  C7 (as the code has it). For two or more signatures (fewer than \<open>2^32\<close>, the bound of an
  array) whose \<open>r\<close> strings \<open>BigInt\<close> reads as integers, when neither the nonce-reuse check
  nor the polynomial check reports, the scan returns the weak-nonce finding of severity 70
  exactly when the number of signatures with \<open>r\<close> below \<open>maxR / 1000\<close> is more than 30
  percent of the sample, and no finding otherwise. The bound is \<open>maxR = 2^256 - 1\<close>, not the
  curve order. Four low values among ten give the finding, two among ten give none.
\<close>

theorem scan_weak_nonce_iff:
  assumes "length sigs \<ge> 2" and "length sigs < 2 ^ 32"
    and "nonceReuse sigs = None"
    and "polynomialAttack sigs = Inr None"
    and "map (\<lambda>sig. BigInt (r sig)) sigs = map Inr rInts"
  shows "scan_signatures sigs =
      (if 10 * length (filter (\<lambda>x. x < maxR div 1000) rInts) > 3 * length sigs then
         Inr (Some \<lparr> type = weak_nonce,
                details = nat_toString (length (filter (\<lambda>x. x < maxR div 1000) rInts))
                  @ utf16 '' out of '' @ nat_toString (length sigs)
                  @ utf16 '' signatures use low-entropy nonces.'',
                severity = 70 \<rparr>)
       else Inr None)"
proof -
  have ri: "rInts_of sigs = Inr rInts"
    using assms(5) by (simp add: rInts_of_iff)
  have "scan_signatures sigs = weakNonce sigs"
    using assms(1,3,4) by (simp add: scan_signatures_def)
  then show ?thesis
    by (simp only: weakNonce_eq [OF assms(2) ri])
qed

theorem scan_weak_nonce_iff_witness:
  "scan_signatures ([\<lparr> r = utf16 ''1'', s = utf16 ''0x1'', v = 27, hash = utf16 ''0xh'' \<rparr>,
      \<lparr> r = utf16 ''0x1000000000000000000000000000000000000000000000000000000000000000'', s = utf16 ''0x1'', v = 27, hash = utf16 ''0xh'' \<rparr>,
      \<lparr> r = utf16 ''5'', s = utf16 ''0x1'', v = 27, hash = utf16 ''0xh'' \<rparr>,
      \<lparr> r = utf16 ''0x2000000000000000000000000000000000000000000000000000000000000000'', s = utf16 ''0x1'', v = 27, hash = utf16 ''0xh'' \<rparr>,
      \<lparr> r = utf16 ''2'', s = utf16 ''0x1'', v = 27, hash = utf16 ''0xh'' \<rparr>,
      \<lparr> r = utf16 ''0x3000000000000000000000000000000000000000000000000000000000000000'', s = utf16 ''0x1'', v = 27, hash = utf16 ''0xh'' \<rparr>,
      \<lparr> r = utf16 ''9'', s = utf16 ''0x1'', v = 27, hash = utf16 ''0xh'' \<rparr>,
      \<lparr> r = utf16 ''0x4000000000000000000000000000000000000000000000000000000000000000'', s = utf16 ''0x1'', v = 27, hash = utf16 ''0xh'' \<rparr>,
      \<lparr> r = utf16 ''0x5000000000000000000000000000000000000000000000000000000000000000'', s = utf16 ''0x1'', v = 27, hash = utf16 ''0xh'' \<rparr>,
      \<lparr> r = utf16 ''0x6000000000000000000000000000000000000000000000000000000000000000'', s = utf16 ''0x1'', v = 27, hash = utf16 ''0xh'' \<rparr>]) =
     Inr (Some \<lparr> type = weak_nonce,
            details = utf16 ''4 out of 10 signatures use low-entropy nonces.'',
            severity = 70 \<rparr>)
   \<and> scan_signatures ([\<lparr> r = utf16 ''1'', s = utf16 ''0x1'', v = 27, hash = utf16 ''0xh'' \<rparr>,
      \<lparr> r = utf16 ''0x1000000000000000000000000000000000000000000000000000000000000000'', s = utf16 ''0x1'', v = 27, hash = utf16 ''0xh'' \<rparr>,
      \<lparr> r = utf16 ''5'', s = utf16 ''0x1'', v = 27, hash = utf16 ''0xh'' \<rparr>,
      \<lparr> r = utf16 ''0x2000000000000000000000000000000000000000000000000000000000000000'', s = utf16 ''0x1'', v = 27, hash = utf16 ''0xh'' \<rparr>,
      \<lparr> r = utf16 ''0x3000000000000000000000000000000000000000000000000000000000000000'', s = utf16 ''0x1'', v = 27, hash = utf16 ''0xh'' \<rparr>,
      \<lparr> r = utf16 ''0x4000000000000000000000000000000000000000000000000000000000000000'', s = utf16 ''0x1'', v = 27, hash = utf16 ''0xh'' \<rparr>,
      \<lparr> r = utf16 ''0x5000000000000000000000000000000000000000000000000000000000000000'', s = utf16 ''0x1'', v = 27, hash = utf16 ''0xh'' \<rparr>,
      \<lparr> r = utf16 ''0x6000000000000000000000000000000000000000000000000000000000000000'', s = utf16 ''0x1'', v = 27, hash = utf16 ''0xh'' \<rparr>,
      \<lparr> r = utf16 ''0x7000000000000000000000000000000000000000000000000000000000000000'', s = utf16 ''0x1'', v = 27, hash = utf16 ''0xh'' \<rparr>,
      \<lparr> r = utf16 ''0x8000000000000000000000000000000000000000000000000000000000000000'', s = utf16 ''0x1'', v = 27, hash = utf16 ''0xh'' \<rparr>]) = Inr None"
proof -
  define ex1 where "ex1 = ([\<lparr> r = utf16 ''1'', s = utf16 ''0x1'', v = 27, hash = utf16 ''0xh'' \<rparr>,
      \<lparr> r = utf16 ''0x1000000000000000000000000000000000000000000000000000000000000000'', s = utf16 ''0x1'', v = 27, hash = utf16 ''0xh'' \<rparr>,
      \<lparr> r = utf16 ''5'', s = utf16 ''0x1'', v = 27, hash = utf16 ''0xh'' \<rparr>,
      \<lparr> r = utf16 ''0x2000000000000000000000000000000000000000000000000000000000000000'', s = utf16 ''0x1'', v = 27, hash = utf16 ''0xh'' \<rparr>,
      \<lparr> r = utf16 ''2'', s = utf16 ''0x1'', v = 27, hash = utf16 ''0xh'' \<rparr>,
      \<lparr> r = utf16 ''0x3000000000000000000000000000000000000000000000000000000000000000'', s = utf16 ''0x1'', v = 27, hash = utf16 ''0xh'' \<rparr>,
      \<lparr> r = utf16 ''9'', s = utf16 ''0x1'', v = 27, hash = utf16 ''0xh'' \<rparr>,
      \<lparr> r = utf16 ''0x4000000000000000000000000000000000000000000000000000000000000000'', s = utf16 ''0x1'', v = 27, hash = utf16 ''0xh'' \<rparr>,
      \<lparr> r = utf16 ''0x5000000000000000000000000000000000000000000000000000000000000000'', s = utf16 ''0x1'', v = 27, hash = utf16 ''0xh'' \<rparr>,
      \<lparr> r = utf16 ''0x6000000000000000000000000000000000000000000000000000000000000000'', s = utf16 ''0x1'', v = 27, hash = utf16 ''0xh'' \<rparr>])"
  define ex2 where "ex2 = ([\<lparr> r = utf16 ''1'', s = utf16 ''0x1'', v = 27, hash = utf16 ''0xh'' \<rparr>,
      \<lparr> r = utf16 ''0x1000000000000000000000000000000000000000000000000000000000000000'', s = utf16 ''0x1'', v = 27, hash = utf16 ''0xh'' \<rparr>,
      \<lparr> r = utf16 ''5'', s = utf16 ''0x1'', v = 27, hash = utf16 ''0xh'' \<rparr>,
      \<lparr> r = utf16 ''0x2000000000000000000000000000000000000000000000000000000000000000'', s = utf16 ''0x1'', v = 27, hash = utf16 ''0xh'' \<rparr>,
      \<lparr> r = utf16 ''0x3000000000000000000000000000000000000000000000000000000000000000'', s = utf16 ''0x1'', v = 27, hash = utf16 ''0xh'' \<rparr>,
      \<lparr> r = utf16 ''0x4000000000000000000000000000000000000000000000000000000000000000'', s = utf16 ''0x1'', v = 27, hash = utf16 ''0xh'' \<rparr>,
      \<lparr> r = utf16 ''0x5000000000000000000000000000000000000000000000000000000000000000'', s = utf16 ''0x1'', v = 27, hash = utf16 ''0xh'' \<rparr>,
      \<lparr> r = utf16 ''0x6000000000000000000000000000000000000000000000000000000000000000'', s = utf16 ''0x1'', v = 27, hash = utf16 ''0xh'' \<rparr>,
      \<lparr> r = utf16 ''0x7000000000000000000000000000000000000000000000000000000000000000'', s = utf16 ''0x1'', v = 27, hash = utf16 ''0xh'' \<rparr>,
      \<lparr> r = utf16 ''0x8000000000000000000000000000000000000000000000000000000000000000'', s = utf16 ''0x1'', v = 27, hash = utf16 ''0xh'' \<rparr>])"
  define ints1 :: "int list" where "ints1 = [1,
      7237005577332262213973186563042994240829374041602535252466099000494570602496,
      5,
      14474011154664524427946373126085988481658748083205070504932198000989141204992,
      2,
      21711016731996786641919559689128982722488122124807605757398297001483711807488,
      9,
      28948022309329048855892746252171976963317496166410141009864396001978282409984,
      36185027886661311069865932815214971204146870208012676262330495002472853012480,
      43422033463993573283839119378257965444976244249615211514796594002967423614976]"
  define ints2 :: "int list" where "ints2 = [1,
      7237005577332262213973186563042994240829374041602535252466099000494570602496,
      5,
      14474011154664524427946373126085988481658748083205070504932198000989141204992,
      21711016731996786641919559689128982722488122124807605757398297001483711807488,
      28948022309329048855892746252171976963317496166410141009864396001978282409984,
      36185027886661311069865932815214971204146870208012676262330495002472853012480,
      43422033463993573283839119378257965444976244249615211514796594002967423614976,
      50659039041325835497812305941300959685805618291217746767262693003461994217472,
      57896044618658097711785492504343953926634992332820282019728792003956564819968]"
  have b1: "map (\<lambda>sig. BigInt (r sig)) ex1 = map Inr ints1"
    unfolding ex1_def ints1_def by (simp add: BigInt_eval)
  have b2: "map (\<lambda>sig. BigInt (r sig)) ex2 = map Inr ints2"
    unfolding ex2_def ints2_def by (simp add: BigInt_eval)
  have r1: "rInts_of ex1 = Inr ints1"
    using b1 by (simp only: rInts_of_iff)
  have r2: "rInts_of ex2 = Inr ints2"
    using b2 by (simp only: rInts_of_iff)
  have l1: "length ex1 = 10" and l2: "length ex2 = 10"
    by (simp_all add: ex1_def ex2_def)
  have n1: "nonceReuse ex1 = None"
    by (rule nonceReuse_distinct) (simp add: ex1_def utf16_inject)
  have n2: "nonceReuse ex2 = None"
    by (rule nonceReuse_distinct) (simp add: ex2_def utf16_inject)
  have "\<not> list_all (\<lambda>d. 0 \<le> d \<and> d < 1000) (differences (differences ints1))"
    by (simp add: ints1_def)
  then have p1: "polynomialAttack ex1 = Inr None"
    by (simp add: polynomialAttack_iff [OF _ r1] l1)
  have "\<not> list_all (\<lambda>d. 0 \<le> d \<and> d < 1000) (differences (differences ints2))"
    by (simp add: ints2_def)
  then have p2: "polynomialAttack ex2 = Inr None"
    by (simp add: polynomialAttack_iff [OF _ r2] l2)
  have w1: "length (filter (\<lambda>x. x < maxR div 1000) ints1) = 4"
    by (simp add: ints1_def maxR_def)
  have w2: "length (filter (\<lambda>x. x < maxR div 1000) ints2) = 2"
    by (simp add: ints2_def maxR_def)
  have t: "nat_toString 4 @ utf16 '' out of '' @ nat_toString 10 @ utf16 '' signatures use low-entropy nonces.''
      = utf16 ''4 out of 10 signatures use low-entropy nonces.''"
    by (simp add: nat_toString.simps utf16_def c16_def)
  have "scan_signatures ex1 =
     Inr (Some \<lparr> type = weak_nonce,
            details = utf16 ''4 out of 10 signatures use low-entropy nonces.'',
            severity = 70 \<rparr>)"
    using scan_weak_nonce_iff [OF _ _ n1 p1 b1] by (simp add: l1 w1 t)
  moreover have "scan_signatures ex2 = Inr None"
    using scan_weak_nonce_iff [OF _ _ n2 p2 b2] by (simp add: l2 w2)
  ultimately show ?thesis
    by (simp only: ex1_def ex2_def)
qed

text \<open>
  Two signatures whose \<open>r\<close> lie above \<open>curveOrder / 1000\<close> and below \<open>maxR / 1000\<close>: none is
  below the thousandth of the curve order, and the scan reports weak nonces for both.
\<close>

theorem weak_nonce_curveOrder_counterexample:
  "nonceReuse
     [\<lparr> r = utf16 ''115792089237316195423570985008687907852837564279074904382605163141518161495'',
        s = utf16 ''0x1'', v = 27, hash = utf16 ''0xh'' \<rparr>,
      \<lparr> r = utf16 ''115792089237316195423570985008687907852837564279074904382605163141518161496'',
        s = utf16 ''0x1'', v = 27, hash = utf16 ''0xh'' \<rparr>] = None
   \<and> polynomialAttack
     [\<lparr> r = utf16 ''115792089237316195423570985008687907852837564279074904382605163141518161495'',
        s = utf16 ''0x1'', v = 27, hash = utf16 ''0xh'' \<rparr>,
      \<lparr> r = utf16 ''115792089237316195423570985008687907852837564279074904382605163141518161496'',
        s = utf16 ''0x1'', v = 27, hash = utf16 ''0xh'' \<rparr>] = Inr None
   \<and> map (\<lambda>sig. BigInt (r sig))
     [\<lparr> r = utf16 ''115792089237316195423570985008687907852837564279074904382605163141518161495'',
        s = utf16 ''0x1'', v = 27, hash = utf16 ''0xh'' \<rparr>,
      \<lparr> r = utf16 ''115792089237316195423570985008687907852837564279074904382605163141518161496'',
        s = utf16 ''0x1'', v = 27, hash = utf16 ''0xh'' \<rparr>]
     = map Inr
        [115792089237316195423570985008687907852837564279074904382605163141518161495,
         115792089237316195423570985008687907852837564279074904382605163141518161496]
   \<and> filter (\<lambda>x. x < curveOrder div 1000)
        [115792089237316195423570985008687907852837564279074904382605163141518161495,
         115792089237316195423570985008687907852837564279074904382605163141518161496] = []
   \<and> curveOrder < 1000 * 115792089237316195423570985008687907852837564279074904382605163141518161495
   \<and> scan_signatures
     [\<lparr> r = utf16 ''115792089237316195423570985008687907852837564279074904382605163141518161495'',
        s = utf16 ''0x1'', v = 27, hash = utf16 ''0xh'' \<rparr>,
      \<lparr> r = utf16 ''115792089237316195423570985008687907852837564279074904382605163141518161496'',
        s = utf16 ''0x1'', v = 27, hash = utf16 ''0xh'' \<rparr>]
     = Inr (Some \<lparr> type = weak_nonce,
              details = utf16 ''2 out of 2 signatures use low-entropy nonces.'',
              severity = 70 \<rparr>)"
proof -
  define sigs where "sigs =
     [\<lparr> r = utf16 ''115792089237316195423570985008687907852837564279074904382605163141518161495'',
        s = utf16 ''0x1'', v = 27, hash = utf16 ''0xh'' \<rparr>,
      \<lparr> r = utf16 ''115792089237316195423570985008687907852837564279074904382605163141518161496'',
        s = utf16 ''0x1'', v = 27, hash = utf16 ''0xh'' \<rparr>]"
  define ints :: "int list" where "ints =
        [115792089237316195423570985008687907852837564279074904382605163141518161495,
         115792089237316195423570985008687907852837564279074904382605163141518161496]"
  have l: "length sigs = 2" by (simp add: sigs_def)
  have n: "nonceReuse sigs = None"
    by (rule nonceReuse_distinct) (simp add: sigs_def utf16_inject)
  have p: "polynomialAttack sigs = Inr None"
    by (simp add: polynomialAttack_def l)
  have b: "map (\<lambda>sig. BigInt (r sig)) sigs = map Inr ints"
    unfolding sigs_def ints_def by (simp add: BigInt_eval)
  then have ri: "rInts_of sigs = Inr ints"
    by (simp only: rInts_of_iff)
  have c: "filter (\<lambda>x. x < curveOrder div 1000) ints = []"
    by (simp add: ints_def curveOrder_def)
  have c': "curveOrder < 1000 * 115792089237316195423570985008687907852837564279074904382605163141518161495"
    by (simp add: curveOrder_def)
  have w: "length (filter (\<lambda>x. x < maxR div 1000) ints) = 2"
    by (simp add: ints_def maxR_def)
  have t: "nat_toString 2 @ utf16 '' out of '' @ nat_toString 2 @ utf16 '' signatures use low-entropy nonces.''
      = utf16 ''2 out of 2 signatures use low-entropy nonces.''"
    by (simp add: nat_toString.simps utf16_def c16_def)
  have "weakNonce sigs = Inr (Some \<lparr> type = weak_nonce,
              details = utf16 ''2 out of 2 signatures use low-entropy nonces.'',
              severity = 70 \<rparr>)"
    using weakNonce_eq [OF _ ri] by (simp add: l w t)
  then have sc: "scan_signatures sigs = Inr (Some \<lparr> type = weak_nonce,
              details = utf16 ''2 out of 2 signatures use low-entropy nonces.'',
              severity = 70 \<rparr>)"
    by (simp add: scan_signatures_def n p l)
  from n p b c c' sc show ?thesis
    by (simp only: sigs_def ints_def simp_thms)
qed

section \<open>Properties of the scheduler\<close>

lemma processAddress_caught:
  "processAddress_body env addr w = (Inl e, w') \<Longrightarrow>
   processAddress env addr w = (Inr (), w'\<lparr>console := console w' @ [ErrorProcessingAddress addr e]\<rparr>)"
  by (simp add: processAddress_def try_catch_def console_log_def)

lemma processAddress_returns: "fst (processAddress env addr w) = Inr ()"
  by (cases "processAddress_body env addr w")
    (auto simp: processAddress_def try_catch_def console_log_def split: sum.splits)

lemma processAddress_eq: "processAddress env addr w = (Inr (), then_process env w addr)"
  using processAddress_returns [of env addr w]
  by (cases "processAddress env addr w") (simp add: then_process_def)

lemma for_each_processAddress:
  "for_each (processAddress env) addresses w = (Inr (), foldl (then_process env) w addresses)"
  by (induction addresses arbitrary: w) (simp_all add: io_return_def io_bind_def processAddress_eq)

lemma scanCycle_eq:
  "getAddressesToCheck env w = (Inr addresses, w0) \<Longrightarrow>
   scanCycle env w = (Inr (), foldl (then_process env) w0 addresses)"
  by (simp add: scanCycle_def try_catch_def io_bind_def for_each_processAddress)

lemma scanCycle_returns: "fst (scanCycle env w) = Inr ()"
  by (cases "getAddressesToCheck env w")
    (auto simp: scanCycle_def try_catch_def io_bind_def for_each_processAddress console_log_def
      split: sum.splits)

lemma resume_keeps_timers:
  "timers (resume env i sys) = timers sys \<and> mainScanner (resume env i sys) = mainScanner sys
   \<and> nextTimer (resume env i sys) = nextTimer sys"
  by (auto simp: resume_def split: prod.splits option.splits)

lemma timer_fires_armed:
  "t \<in> fst ` set (timers sys) \<Longrightarrow>
   timer_fires t sys = sys\<lparr> pending := pending sys @ [AwaitingSchedules] \<rparr>"
  by (simp add: timer_fires_def)

lemma resume_processing:
  assumes "i < length (pending sys)" "pending sys ! i = Processing (addr # rest)"
  shows "resume env i sys =
           sys\<lparr> pending := (if rest = [] then take i (pending sys) @ drop (Suc i) (pending sys)
                              else (pending sys)[i := Processing rest]),
                world := then_process env (world sys) addr \<rparr>"
  using assms by (simp add: resume_def resume_cycle_def processAddress_eq)

text \<open>
  C2. When the processing of one target throws, \<open>processAddress\<close> catches and logs the
  exception and returns normally. A cycle in which that happens returns normally too, and
  its result is that of processing every remaining target, in order, from the world the
  failure left. Step by step, among other cycles: the cycle goes on with its remaining
  targets, the timers are untouched, and the next firing of an armed timer starts a new
  cycle.
\<close>

theorem target_failure_isolated:
  assumes "processAddress_body env addr w = (Inl e, w')"
  shows "processAddress env addr w =
           (Inr (), w'\<lparr>console := console w' @ [ErrorProcessingAddress addr e]\<rparr>)
       \<and> (\<forall>first before after w0.
             getAddressesToCheck env first = (Inr (before @ addr # after), w0)
             \<and> foldl (then_process env) w0 before = w
             \<longrightarrow> scanCycle env first =
                   (Inr (), foldl (then_process env)
                              (w'\<lparr>console := console w' @ [ErrorProcessingAddress addr e]\<rparr>) after))
       \<and> (\<forall>sys i rest.
             i < length (pending sys) \<and> pending sys ! i = Processing (addr # rest) \<and> world sys = w
             \<longrightarrow> resume env i sys =
                   sys\<lparr> pending := (if rest = [] then take i (pending sys) @ drop (Suc i) (pending sys)
                                      else (pending sys)[i := Processing rest]),
                        world := w'\<lparr>console := console w' @ [ErrorProcessingAddress addr e]\<rparr> \<rparr>
                 \<and> (\<forall>t \<in> fst ` set (timers sys).
                       pending (step env (resume env i sys) (Timer_fires t))
                         = pending (resume env i sys) @ [AwaitingSchedules]))"
proof -
  let ?logged = "w'\<lparr>console := console w' @ [ErrorProcessingAddress addr e]\<rparr>"
  have caught: "processAddress env addr w = (Inr (), ?logged)"
    using assms by (rule processAddress_caught)
  then have tp: "then_process env w addr = ?logged"
    by (simp add: then_process_def)
  have cycle: "scanCycle env first = (Inr (), foldl (then_process env) ?logged after)"
    if "getAddressesToCheck env first = (Inr (before @ addr # after), w0)"
      and "foldl (then_process env) w0 before = w"
    for first before after w0
    using that tp by (simp add: scanCycle_eq)
  have steps: "resume env i sys =
                   sys\<lparr> pending := (if rest = [] then take i (pending sys) @ drop (Suc i) (pending sys)
                                      else (pending sys)[i := Processing rest]),
                        world := ?logged \<rparr>
                 \<and> (\<forall>t \<in> fst ` set (timers sys).
                       pending (step env (resume env i sys) (Timer_fires t))
                         = pending (resume env i sys) @ [AwaitingSchedules])"
    if "i < length (pending sys)" "pending sys ! i = Processing (addr # rest)" "world sys = w"
    for sys :: "'a system" and i rest
  proof -
    have "resume env i sys =
                   sys\<lparr> pending := (if rest = [] then take i (pending sys) @ drop (Suc i) (pending sys)
                                      else (pending sys)[i := Processing rest]),
                        world := ?logged \<rparr>"
      using resume_processing [OF that(1,2), of env] tp that(3) by simp
    moreover have "\<forall>t \<in> fst ` set (timers sys).
                       pending (step env (resume env i sys) (Timer_fires t))
                         = pending (resume env i sys) @ [AwaitingSchedules]"
      by (simp add: timer_fires_def resume_keeps_timers)
    ultimately show ?thesis by blast
  qed
  from caught cycle steps show ?thesis by blast
qed

text \<open>
  Running a suspended cycle to its end step by step gives the world that \<open>scanCycle\<close>, run
  without interruption, gives.
\<close>

lemma finish_targets_eq: "finish_targets env addresses w = foldl (then_process env) w addresses"
proof (induction addresses arbitrary: w)
  case Nil
  show ?case by simp
next
  case (Cons addr rest)
  show ?case
    by (cases "rest = []") (simp_all add: resume_cycle_def processAddress_eq Cons.IH)
qed

lemma stepwise_is_scanCycle:
  "snd (scanCycle env w) =
     (case resume_cycle env AwaitingSchedules w of
        (None, w') \<Rightarrow> w'
      | (Some (Processing addresses), w') \<Rightarrow> finish_targets env addresses w'
      | (Some AwaitingSchedules, w') \<Rightarrow> w')"
proof (cases "getAddressesToCheck env w")
  case (Pair res w0)
  show ?thesis
  proof (cases res)
    case (Inl e)
    with Pair show ?thesis
      by (simp add: resume_cycle_def scanCycle_def try_catch_def io_bind_def)
  next
    case (Inr addresses)
    with Pair show ?thesis
      by (simp add: resume_cycle_def scanCycle_eq finish_targets_eq)
  qed
qed

lemma consistent_initial: "consistent (initial w)"
  by (simp add: consistent_def initial_def)

lemma consistent_start: "consistent sys \<Longrightarrow> consistent (start n sys)"
  by (auto simp: consistent_def start_def setInterval_def log_system_def Let_def split: option.splits)

lemma consistent_stop: "consistent sys \<Longrightarrow> consistent (stop sys)"
  by (auto simp: consistent_def stop_def clearInterval_def log_system_def Let_def split: option.splits)

lemma consistent_timer_fires: "consistent sys \<Longrightarrow> consistent (timer_fires t sys)"
  by (auto simp: consistent_def timer_fires_def split: option.splits)

lemma consistent_resume: "consistent sys \<Longrightarrow> consistent (resume env i sys)"
  by (simp add: consistent_def resume_keeps_timers split: option.splits)

lemma consistent_step: "consistent sys \<Longrightarrow> consistent (step env sys ev)"
  by (cases ev) (simp_all add: consistent_start consistent_stop consistent_timer_fires consistent_resume)

lemma consistent_run: "consistent sys \<Longrightarrow> consistent (run env events sys)"
  unfolding run_def by (induction events arbitrary: sys) (simp_all add: consistent_step)

lemma start_while_running: "isRunning (mainScanner sys) \<Longrightarrow> start n sys = sys"
  by (simp add: start_def)

lemma start_arms_one:
  assumes "consistent sys"
  shows "\<exists>t delay. timers (start n sys) = [(t, delay)] \<and> interval (mainScanner (start n sys)) = Some t
          \<and> isRunning (mainScanner (start n sys))"
proof (cases "isRunning (mainScanner sys)")
  case True
  with assms show ?thesis
    by (auto simp: start_def consistent_def split: option.splits)
next
  case False
  with assms have "timers sys = []"
    by (auto simp: consistent_def split: option.splits)
  with False show ?thesis
    by (simp add: start_def setInterval_def log_system_def Let_def)
qed

lemma stop_cancels:
  assumes "consistent sys"
  shows "timers (stop sys) = [] \<and> interval (mainScanner (stop sys)) = None
          \<and> \<not> isRunning (mainScanner (stop sys))"
  using assms
  by (auto simp: consistent_def stop_def clearInterval_def log_system_def Let_def split: option.splits)

lemma stop_stop:
  "stop (stop sys) = log_system LogStopped (stop sys)"
  by (cases "interval (mainScanner sys)")
     (simp_all add: stop_def clearInterval_def log_system_def Let_def console_log_def)

lemma stop_stop_fields:
  "mainScanner (stop (stop sys)) = mainScanner (stop sys)
   \<and> timers (stop (stop sys)) = timers (stop sys)
   \<and> nextTimer (stop (stop sys)) = nextTimer (stop sys)
   \<and> pending (stop (stop sys)) = pending (stop sys)
   \<and> outside (world (stop (stop sys))) = outside (world (stop sys))
   \<and> console (world (stop (stop sys))) = console (world (stop sys)) @ [LogStopped]"
  unfolding stop_stop [of sys] by (simp add: log_system_def console_log_def)

lemma start_after_stop:
  assumes "consistent sys"
  shows "\<exists>t. timers (start n (stop sys)) = [(t, n * 1000)]
          \<and> interval (mainScanner (start n (stop sys))) = Some t
          \<and> isRunning (mainScanner (start n (stop sys)))
          \<and> pending (step env (start n (stop sys)) (Timer_fires t))
               = pending sys @ [AwaitingSchedules]"
proof -
  from stop_cancels [OF assms] have
    st: "timers (stop sys) = []" "\<not> isRunning (mainScanner (stop sys))"
    by simp_all
  have p: "pending (stop sys) = pending sys"
    by (cases "interval (mainScanner sys)")
       (simp_all add: stop_def clearInterval_def log_system_def Let_def)
  show ?thesis
    using st p by (simp add: start_def setInterval_def log_system_def Let_def timer_fires_def)
qed

text \<open>
  C8. In every state the process can reach: \<open>start\<close> while running changes nothing; at most
  one timer is armed, and after \<open>start\<close>, also called twice, exactly one; \<open>stop\<close> cancels the
  timer and clears the handle and the flag; a second \<open>stop\<close> leaves scheduler, timers and
  cycles as the first left them (it only prints its line again); \<open>start\<close> after \<open>stop\<close> arms
  one timer with the new delay, whose firing starts a cycle.
\<close>

theorem start_stop_state_machine:
  assumes "sys = run env events (initial w)"
  shows "(isRunning (mainScanner sys) \<longrightarrow> start n sys = sys)
       \<and> length (timers sys) \<le> 1
       \<and> start m (start n sys) = start n sys
       \<and> length (timers (start m (start n sys))) = 1
       \<and> timers (stop sys) = []
       \<and> interval (mainScanner (stop sys)) = None
       \<and> \<not> isRunning (mainScanner (stop sys))
       \<and> stop (stop sys) = log_system LogStopped (stop sys)
       \<and> mainScanner (stop (stop sys)) = mainScanner (stop sys)
       \<and> timers (stop (stop sys)) = timers (stop sys)
       \<and> pending (stop (stop sys)) = pending (stop sys)
       \<and> (\<exists>t. timers (start n (stop sys)) = [(t, n * 1000)]
              \<and> interval (mainScanner (start n (stop sys))) = Some t
              \<and> isRunning (mainScanner (start n (stop sys)))
              \<and> pending (step env (start n (stop sys)) (Timer_fires t))
                   = pending sys @ [AwaitingSchedules])"
proof -
  have c: "consistent sys"
    unfolding assms by (rule consistent_run [OF consistent_initial])
  have "length (timers sys) \<le> 1"
    using c by (auto simp: consistent_def split: option.splits)
  moreover from start_arms_one [OF c, of n]
  have "start m (start n sys) = start n sys" "length (timers (start m (start n sys))) = 1"
    by (auto simp: start_while_running)
  ultimately show ?thesis
    using stop_cancels [OF c] stop_stop [of sys] stop_stop_fields [of sys]
      start_after_stop [OF c, of n env]
    by (simp add: start_while_running)
qed

text \<open>
  C3 (as the code has it). The loop is driven by the periodic timer alone: every firing of
  an armed timer starts a new cycle at once, whatever cycles are still suspended; nothing
  waits for the previous cycle and no flag guards re-entry.
\<close>

theorem timer_fires_starts_cycle:
  assumes "t \<in> fst ` set (timers sys)"
  shows "step env sys (Timer_fires t) = sys\<lparr> pending := pending sys @ [AwaitingSchedules] \<rparr>"
  using assms by (simp add: timer_fires_def)

subsection \<open>Examples\<close>

lemma mock_seed_target:
  "generateMockPrioritization (utf16 ''0x742d...f44e'') = \<lparr>priority = H, risk = 86, depth = 1\<rparr>"
  by (simp add: generateMockPrioritization_def hash_step_def utf16_def c16_def js_rem_def priorityMap_def)

lemma mock_addr1:
  "generateMockPrioritization (utf16 ''addr1'') = \<lparr>priority = M, risk = 20, depth = 2\<rparr>"
  by (simp add: generateMockPrioritization_def hash_step_def utf16_def c16_def js_rem_def priorityMap_def)

lemma addresses_offline:
  "getAddressesToCheck offline_env w = (Inr [utf16 ''0x742d...f44e'', utf16 ''addr1''], w)"
  by (simp add: getAddressesToCheck_def io_defs)

lemma body_seed_target:
  "processAddress_body offline_env (utf16 ''0x742d...f44e'') w = (Inl TypeError, w)"
  by (simp add: processAddress_body_def prioritize_def decide_def fallbackDecide_def
      mock_seed_target scan_extracted utf16_inject io_defs)

lemma process_addr1:
  "processAddress offline_env (utf16 ''addr1'') w =
     (Inr (), w\<lparr>console := console w @
        [LogSleep (utf16 ''addr1'')
           (String (utf16 ''Medium priority with normal risk, will check again later''))]\<rparr>)"
  by (simp add: processAddress_def processAddress_body_def prioritize_def decide_def fallbackDecide_def
      mock_addr1 utf16_inject io_defs)
    (simp add: utf16_def)

theorem target_failure_isolated_witness:
  "processAddress_body offline_env (utf16 ''0x742d...f44e'') quiet = (Inl TypeError, quiet)
   \<and> processAddress offline_env (utf16 ''0x742d...f44e'') quiet =
       (Inr (), \<lparr> console = [ErrorProcessingAddress (utf16 ''0x742d...f44e'') TypeError],
                 outside = () \<rparr>)
   \<and> getAddressesToCheck offline_env quiet = (Inr ([] @ utf16 ''0x742d...f44e'' # [utf16 ''addr1'']), quiet)
   \<and> scanCycle offline_env quiet =
       (Inr (),
        \<lparr> console =
            [ErrorProcessingAddress (utf16 ''0x742d...f44e'') TypeError,
             LogSleep (utf16 ''addr1'')
               (String (utf16 ''Medium priority with normal risk, will check again later''))],
          outside = () \<rparr>)
   \<and> resume offline_env 0
         \<lparr> mainScanner = \<lparr> isRunning = True, interval = Some (Timer 0) \<rparr>,
           timers = [(Timer 0, 30000)], nextTimer = 1,
           pending = [Processing [utf16 ''0x742d...f44e'', utf16 ''addr1'']],
           world = quiet \<rparr>
       = \<lparr> mainScanner = \<lparr> isRunning = True, interval = Some (Timer 0) \<rparr>,
           timers = [(Timer 0, 30000)], nextTimer = 1,
           pending = [Processing [utf16 ''addr1'']],
           world = \<lparr> console = [ErrorProcessingAddress (utf16 ''0x742d...f44e'') TypeError],
                     outside = () \<rparr> \<rparr>
   \<and> pending (step offline_env
         (resume offline_env 0
            \<lparr> mainScanner = \<lparr> isRunning = True, interval = Some (Timer 0) \<rparr>,
              timers = [(Timer 0, 30000)], nextTimer = 1,
              pending = [Processing [utf16 ''0x742d...f44e'', utf16 ''addr1'']],
              world = quiet \<rparr>)
         (Timer_fires (Timer 0)))
       = [Processing [utf16 ''addr1''], AwaitingSchedules]"
proof -
  let ?sys = "\<lparr> mainScanner = \<lparr> isRunning = True, interval = Some (Timer 0) \<rparr>,
              timers = [(Timer 0, 30000)], nextTimer = 1,
              pending = [Processing [utf16 ''0x742d...f44e'', utf16 ''addr1'']],
              world = quiet \<rparr>"
  have b: "processAddress_body offline_env (utf16 ''0x742d...f44e'') quiet = (Inl TypeError, quiet)"
    by (rule body_seed_target)
  note t = target_failure_isolated [OF b]
  from t have one: "processAddress offline_env (utf16 ''0x742d...f44e'') quiet =
       (Inr (), \<lparr> console = [ErrorProcessingAddress (utf16 ''0x742d...f44e'') TypeError],
                 outside = () \<rparr>)"
    by simp
  have a: "getAddressesToCheck offline_env quiet = (Inr ([] @ utf16 ''0x742d...f44e'' # [utf16 ''addr1'']), quiet)"
    by (simp add: addresses_offline)
  from t have "getAddressesToCheck offline_env quiet = (Inr ([] @ utf16 ''0x742d...f44e'' # [utf16 ''addr1'']), quiet)
             \<and> foldl (then_process offline_env) quiet [] = quiet
             \<longrightarrow> scanCycle offline_env quiet =
                   (Inr (), foldl (then_process offline_env)
                              (quiet\<lparr>console := console quiet @ [ErrorProcessingAddress (utf16 ''0x742d...f44e'') TypeError]\<rparr>) [utf16 ''addr1''])"
    by blast
  with a have two: "scanCycle offline_env quiet =
       (Inr (),
        \<lparr> console =
            [ErrorProcessingAddress (utf16 ''0x742d...f44e'') TypeError,
             LogSleep (utf16 ''addr1'')
               (String (utf16 ''Medium priority with normal risk, will check again later''))],
          outside = () \<rparr>)"
    by (simp add: then_process_def process_addr1)
  from t have "0 < length (pending ?sys) \<and> pending ?sys ! 0 = Processing (utf16 ''0x742d...f44e'' # [utf16 ''addr1'']) \<and> world ?sys = quiet
             \<longrightarrow> resume offline_env 0 ?sys =
                   ?sys\<lparr> pending := (if [utf16 ''addr1''] = [] then take 0 (pending ?sys) @ drop (Suc 0) (pending ?sys)
                                      else (pending ?sys)[0 := Processing [utf16 ''addr1'']]),
                        world := quiet\<lparr>console := console quiet @ [ErrorProcessingAddress (utf16 ''0x742d...f44e'') TypeError]\<rparr> \<rparr>
                 \<and> (\<forall>t \<in> fst ` set (timers ?sys).
                       pending (step offline_env (resume offline_env 0 ?sys) (Timer_fires t))
                         = pending (resume offline_env 0 ?sys) @ [AwaitingSchedules])"
    by blast
  then have three: "resume offline_env 0 ?sys
       = \<lparr> mainScanner = \<lparr> isRunning = True, interval = Some (Timer 0) \<rparr>,
           timers = [(Timer 0, 30000)], nextTimer = 1,
           pending = [Processing [utf16 ''addr1'']],
           world = \<lparr> console = [ErrorProcessingAddress (utf16 ''0x742d...f44e'') TypeError],
                     outside = () \<rparr> \<rparr>"
    and four: "pending (step offline_env (resume offline_env 0 ?sys) (Timer_fires (Timer 0)))
       = [Processing [utf16 ''addr1''], AwaitingSchedules]"
    by (simp_all add: timer_fires_def)
  from b one a two three four show ?thesis by (simp only: simp_thms)
qed

text \<open>
  Two firings of the timer before the first cycle is done: the second cycle begins while the
  first still waits for its schedules, or while it is still processing its targets.
\<close>

theorem cycles_overlap:
  "pending (run offline_env
              [Call_start 30, Timer_fires (Timer 0), Timer_fires (Timer 0)]
              (initial quiet))
     = [AwaitingSchedules, AwaitingSchedules]
   \<and> pending (run offline_env
              [Call_start 30, Timer_fires (Timer 0), Resume 0, Timer_fires (Timer 0)]
              (initial quiet))
     = [Processing [utf16 ''0x742d...f44e'', utf16 ''addr1''], AwaitingSchedules]"
  by (simp add: run_def initial_def start_def setInterval_def log_system_def console_log_def
      timer_fires_def resume_def resume_cycle_def addresses_offline)

theorem timer_fires_starts_cycle_witness:
  "Timer 0 \<in> fst ` set [(Timer 0, 30000::int)]
   \<and> step offline_env
         \<lparr> mainScanner = \<lparr> isRunning = True, interval = Some (Timer 0) \<rparr>,
           timers = [(Timer 0, 30000)], nextTimer = 1,
           pending = [Processing [utf16 ''0x742d...f44e'', utf16 ''addr1'']],
           world = quiet \<rparr>
         (Timer_fires (Timer 0))
     = \<lparr> mainScanner = \<lparr> isRunning = True, interval = Some (Timer 0) \<rparr>,
         timers = [(Timer 0, 30000)], nextTimer = 1,
         pending = [Processing [utf16 ''0x742d...f44e'', utf16 ''addr1''], AwaitingSchedules],
         world = quiet \<rparr>"
  using timer_fires_starts_cycle [of "Timer 0"
         "\<lparr> mainScanner = \<lparr> isRunning = True, interval = Some (Timer 0) \<rparr>,
           timers = [(Timer 0, 30000)], nextTimer = 1,
           pending = [Processing [utf16 ''0x742d...f44e'', utf16 ''addr1'']],
           world = quiet \<rparr>" offline_env]
  by simp

theorem start_stop_state_machine_witness:
  "start 30 (run offline_env [Call_start 30] (initial quiet)) = run offline_env [Call_start 30] (initial quiet)
   \<and> timers (run offline_env [Call_start 30, Call_start 30] (initial quiet)) = [(Timer 0, 30000)]
   \<and> timers (run offline_env [Call_start 30, Call_stop] (initial quiet)) = []
   \<and> timers (run offline_env [Call_start 30, Call_stop, Call_start 30] (initial quiet)) = [(Timer 1, 30000)]
   \<and> pending (run offline_env [Call_start 30, Call_stop, Call_start 30, Timer_fires (Timer 1)] (initial quiet))
       = [AwaitingSchedules]"
proof -
  have r: "isRunning (mainScanner (run offline_env [Call_start 30] (initial quiet)))"
    by (simp add: run_def initial_def start_def setInterval_def log_system_def console_log_def)
  from start_stop_state_machine [of "run offline_env [Call_start 30] (initial quiet)" offline_env "[Call_start 30]" quiet 30 30] r
  have "start 30 (run offline_env [Call_start 30] (initial quiet)) = run offline_env [Call_start 30] (initial quiet)"
    by simp
  then show ?thesis
    by (simp add: run_def) (simp add:  initial_def start_def stop_def setInterval_def clearInterval_def
        log_system_def console_log_def timer_fires_def)
qed

end
